theory Spec2Isabelle
  imports Complex_Main
begin

section \<open>Strings of the script\<close>

text \<open>
  A JavaScript string is a sequence of UTF-16 code units. The script compares code units
  beyond Latin-1 (the dash variants U+2012, U+2013, U+2014 and U+2212), so a string is a list of
  code units as natural numbers. \<open>js\<close> writes a literal of the source.
\<close>

type_synonym jsstring = "nat list"

definition js :: "string \<Rightarrow> jsstring" where
  "js s = map of_char s"

text \<open>
  The class \<open>\s\<close> of a regular expression and the characters \<open>trim\<close> removes are the same set:
  WhiteSpace and LineTerminator of the language definition.
\<close>

definition is_ws :: "nat \<Rightarrow> bool" where
  "is_ws c = (c = 9 \<or> c = 10 \<or> c = 11 \<or> c = 12 \<or> c = 13 \<or> c = 32 \<or> c = 160 \<or> c = 5760
     \<or> (8192 \<le> c \<and> c \<le> 8202) \<or> c = 8232 \<or> c = 8233 \<or> c = 8239 \<or> c = 8287
     \<or> c = 12288 \<or> c = 65279)"

text \<open>The class \<open>\d\<close>: the ten digits of Basic Latin.\<close>

definition is_digit :: "nat \<Rightarrow> bool" where
  "is_digit c = (48 \<le> c \<and> c \<le> 57)"

text \<open>\<open>String.prototype.trim\<close>.\<close>

definition trim :: "jsstring \<Rightarrow> jsstring" where
  "trim s = rev (dropWhile is_ws (rev (dropWhile is_ws s)))"

text \<open>
  \<open>String.prototype.toUpperCase\<close>, on Basic Latin: the report and the patterns are written in
  it (the dash variants apart, which have no case). A code unit outside \<open>a\<close>..\<open>z\<close> is left as it
  is.
\<close>

definition upper_unit :: "nat \<Rightarrow> nat" where
  "upper_unit c = (if 97 \<le> c \<and> c \<le> 122 then c - 32 else c)"


text \<open>\<open>s.replace(/[\u2012\u2013\u2014\u2212]/g, '-')\<close>: the code units 8210, 8211, 8212 and 8722.\<close>

definition is_dash_variant :: "nat \<Rightarrow> bool" where
  "is_dash_variant c = (c = 8210 \<or> c = 8211 \<or> c = 8212 \<or> c = 8722)"



text \<open>
  \<open>s.split(/\s{2,}/)\<close>: the scan goes left to right; a run of two or more white-space
  characters (matched greedily, so the whole run) closes the piece collected so far. The
  piece after the last separator is always pushed, also when it is empty.
\<close>

function split_ws2 :: "jsstring \<Rightarrow> jsstring \<Rightarrow> jsstring list" where
  "split_ws2 cur [] = [cur]"
| "split_ws2 cur [c] = [cur @ [c]]"
| "split_ws2 cur (c # d # cs) =
     (if is_ws c \<and> is_ws d then cur # split_ws2 [] (dropWhile is_ws cs)
      else split_ws2 (cur @ [c]) (d # cs))"
  by pat_completeness auto
termination
  by (relation "measure (\<lambda>(cur, s). length s)")
    (auto simp: length_dropWhile_le less_Suc_eq_le le_SucI)

text \<open>\<open>s.split('/')\<close> and the like: split at every occurrence of one code unit.\<close>

fun split_unit :: "nat \<Rightarrow> jsstring \<Rightarrow> jsstring \<Rightarrow> jsstring list" where
  "split_unit sep cur [] = [cur]"
| "split_unit sep cur (c # cs) =
     (if c = sep then cur # split_unit sep [] cs else split_unit sep (cur @ [c]) cs)"



text \<open>
  \<open>xs[i]\<close>: reading past the end gives \<open>undefined\<close>, here \<open>None\<close>.
\<close>

definition nth_opt :: "'a list \<Rightarrow> nat \<Rightarrow> 'a option" where
  "nth_opt xs i = (if i < length xs then Some (xs ! i) else None)"

text \<open>\<open>xs.findIndex(P)\<close>: the least index whose element satisfies \<open>P\<close>; \<open>None\<close> is \<open>-1\<close>.\<close>

fun findIndex :: "('a \<Rightarrow> bool) \<Rightarrow> 'a list \<Rightarrow> nat option" where
  "findIndex P [] = None"
| "findIndex P (x # xs) =
     (if P x then Some 0 else (case findIndex P xs of None \<Rightarrow> None | Some i \<Rightarrow> Some (Suc i)))"

section \<open>Numbers of the script\<close>

text \<open>
  A JavaScript number is an IEEE 754 double. A finite double is held by its exact rational
  value; positive and negative zero are one value here (the script never tells them apart:
  it compares with \<open>a > b\<close> and subtracts). \<open>round_double\<close> is the rounding every conversion
  and operation ends with: to the nearest double, ties to the even significand, and to an
  infinity from \<open>2^1024 - 2^970\<close> on.
\<close>

datatype jsnum = NaN | PosInf | NegInf | Fin rat

fun bit_len :: "nat \<Rightarrow> nat" where
  "bit_len n = (if n = 0 then 0 else Suc (bit_len (n div 2)))"

declare bit_len.simps [simp del]

definition pow2 :: "int \<Rightarrow> rat" where
  "pow2 e = (if 0 \<le> e then 2 ^ nat e else 1 / 2 ^ nat (- e))"

text \<open>The exponent \<open>e\<close> with \<open>2^e \<le> q < 2^(e+1)\<close>, for a positive \<open>q\<close>.\<close>

definition floor_log2 :: "rat \<Rightarrow> int" where
  "floor_log2 q =
     (let (a, b) = quotient_of q;
          e = int (bit_len (nat a)) - int (bit_len (nat b))
      in if pow2 e \<le> q then e else e - 1)"

definition round_half_even :: "rat \<Rightarrow> int" where
  "round_half_even r =
     (let f = \<lfloor>r\<rfloor>; d = r - of_int f
      in if d < 1 / 2 then f else if 1 / 2 < d then f + 1 else if even f then f else f + 1)"

text \<open>
  The magnitude of a positive rational, rounded: \<open>None\<close> is the overflow to an infinity.
\<close>

definition round_pos :: "rat \<Rightarrow> rat option" where
  "round_pos q =
     (let e = max (floor_log2 q) (- 1022);
          u = pow2 (e - 52);
          v = of_int (round_half_even (q / u)) * u
      in if 2 ^ 1024 \<le> v then None else Some v)"

definition round_double :: "rat \<Rightarrow> jsnum" where
  "round_double q =
     (if q = 0 then Fin 0
      else if 0 < q then (case round_pos q of None \<Rightarrow> PosInf | Some v \<Rightarrow> Fin v)
      else (case round_pos (- q) of None \<Rightarrow> NegInf | Some v \<Rightarrow> Fin (- v)))"

text \<open>\<open>isFinite(n)\<close>, \<open>a > b\<close> and \<open>a - b\<close> on numbers.\<close>

fun isFinite :: "jsnum \<Rightarrow> bool" where
  "isFinite (Fin q) = True"
| "isFinite _ = False"

fun js_gt :: "jsnum \<Rightarrow> jsnum \<Rightarrow> bool" where
  "js_gt NaN _ = False"
| "js_gt _ NaN = False"
| "js_gt PosInf b = (b \<noteq> PosInf)"
| "js_gt NegInf _ = False"
| "js_gt (Fin a) PosInf = False"
| "js_gt (Fin a) NegInf = True"
| "js_gt (Fin a) (Fin b) = (b < a)"

fun js_minus :: "jsnum \<Rightarrow> jsnum \<Rightarrow> jsnum" where
  "js_minus NaN _ = NaN"
| "js_minus _ NaN = NaN"
| "js_minus PosInf PosInf = NaN"
| "js_minus PosInf _ = PosInf"
| "js_minus NegInf NegInf = NaN"
| "js_minus NegInf _ = NegInf"
| "js_minus (Fin a) PosInf = NegInf"
| "js_minus (Fin a) NegInf = PosInf"
| "js_minus (Fin a) (Fin b) = round_double (a - b)"

subsection \<open>\<open>Number(s)\<close> on a string\<close>

text \<open>
  The grammar of a numeric string: optional white space around either nothing (the value
  0), a signed decimal literal (\<open>Infinity\<close>, or digits with an optional fraction and
  exponent), or an unsigned binary, octal or hexadecimal integer. Anything else is \<open>NaN\<close>.
\<close>

definition digit_of :: "nat \<Rightarrow> nat option" where
  "digit_of c =
     (if 48 \<le> c \<and> c \<le> 57 then Some (c - 48)
      else if 97 \<le> c \<and> c \<le> 102 then Some (c - 87)
      else if 65 \<le> c \<and> c \<le> 70 then Some (c - 55)
      else None)"

text \<open>The value of a non-empty digit string in a base; \<open>None\<close> when a character is no digit of it.\<close>

fun digits_acc :: "nat \<Rightarrow> nat \<Rightarrow> jsstring \<Rightarrow> nat option" where
  "digits_acc b acc [] = Some acc"
| "digits_acc b acc (c # cs) =
     (case digit_of c of
        None \<Rightarrow> None
      | Some d \<Rightarrow> if d < b then digits_acc b (acc * b + d) cs else None)"

definition digits_in :: "nat \<Rightarrow> jsstring \<Rightarrow> nat option" where
  "digits_in b s = (if s = [] then None else digits_acc b 0 s)"

definition pow10 :: "int \<Rightarrow> rat" where
  "pow10 k = (if 0 \<le> k then 10 ^ nat k else 1 / 10 ^ nat (- k))"

text \<open>The value of a string of decimal digits (0 for the empty one).\<close>

definition dec_val :: "jsstring \<Rightarrow> nat" where
  "dec_val s = foldl (\<lambda>acc c. acc * 10 + (c - 48)) 0 s"

definition dec_digits :: "jsstring \<Rightarrow> nat option" where
  "dec_digits s = (if s \<noteq> [] \<and> list_all is_digit s then Some (dec_val s) else None)"

text \<open>SignedInteger of an exponent part.\<close>

definition str_exponent :: "jsstring \<Rightarrow> int option" where
  "str_exponent s =
     (case s of
        [] \<Rightarrow> None
      | c # cs \<Rightarrow>
          if c = 43 then map_option int (dec_digits cs)
          else if c = 45 then map_option (\<lambda>n. - int n) (dec_digits cs)
          else map_option int (dec_digits s))"

text \<open>Digits, digits with a fraction, or a fraction alone.\<close>

definition str_mantissa :: "jsstring \<Rightarrow> rat option" where
  "str_mantissa s =
     (let ip = takeWhile is_digit s; r = dropWhile is_digit s
      in case r of
           [] \<Rightarrow> map_option of_nat (dec_digits ip)
         | c # fp \<Rightarrow>
             if c \<noteq> 46 \<or> \<not> list_all is_digit fp \<or> (ip = [] \<and> fp = []) then None
             else Some (of_nat (dec_val ip) + of_nat (dec_val fp) / 10 ^ length fp))"

definition str_unsigned_decimal :: "jsstring \<Rightarrow> rat option" where
  "str_unsigned_decimal s =
     (let m = takeWhile (\<lambda>c. c \<noteq> 101 \<and> c \<noteq> 69) s; r = dropWhile (\<lambda>c. c \<noteq> 101 \<and> c \<noteq> 69) s
      in case r of
           [] \<Rightarrow> str_mantissa m
         | c # ex \<Rightarrow>
             (case (str_mantissa m, str_exponent ex) of
                (Some q, Some k) \<Rightarrow> Some (q * pow10 k)
              | _ \<Rightarrow> None))"

definition str_decimal :: "jsstring \<Rightarrow> jsnum" where
  "str_decimal s =
     (let neg = (s \<noteq> [] \<and> hd s = 45);
          u = (if s \<noteq> [] \<and> (hd s = 43 \<or> hd s = 45) then tl s else s)
      in if u = js ''Infinity'' then (if neg then NegInf else PosInf)
         else (case str_unsigned_decimal u of
                 None \<Rightarrow> NaN
               | Some q \<Rightarrow> round_double (if neg then - q else q)))"

definition str_non_decimal :: "jsstring \<Rightarrow> jsnum option" where
  "str_non_decimal s =
     (case s of
        c # d # ds \<Rightarrow>
          if c \<noteq> 48 then None
          else if d = 120 \<or> d = 88 then Some (case digits_in 16 ds of None \<Rightarrow> NaN | Some n \<Rightarrow> round_double (of_nat n))
          else if d = 111 \<or> d = 79 then Some (case digits_in 8 ds of None \<Rightarrow> NaN | Some n \<Rightarrow> round_double (of_nat n))
          else if d = 98 \<or> d = 66 then Some (case digits_in 2 ds of None \<Rightarrow> NaN | Some n \<Rightarrow> round_double (of_nat n))
          else None
      | _ \<Rightarrow> None)"

definition Number :: "jsstring \<Rightarrow> jsnum" where
  "Number s =
     (let t = trim s
      in if t = [] then Fin 0
         else (case str_non_decimal t of Some n \<Rightarrow> n | None \<Rightarrow> str_decimal t))"

section \<open>Numeric Decoder\<close>

text \<open>
  \<open>toNumber(v)\<close>: \<open>None\<close> is \<open>null\<close> or \<open>undefined\<close> (\<open>v == null\<close> holds of both). The two
  \<open>replace\<close> calls delete every comma and double quote, then every plus sign.
\<close>

definition toNumber :: "jsstring option \<Rightarrow> jsnum" where
  "toNumber v =
     (case v of
        None \<Rightarrow> Fin 0
      | Some s \<Rightarrow>
          (let cleaned = trim (filter (\<lambda>c. c \<noteq> 43) (filter (\<lambda>c. c \<noteq> 44 \<and> c \<noteq> 34) s));
               n = Number cleaned
           in if isFinite n then n else Fin 0))"

text \<open>
  The claim's words, for comparison: only the plus signs at the start of the token are
  deleted (with the white space before them).
\<close>

definition toNumber_leading_plus :: "jsstring option \<Rightarrow> jsnum" where
  "toNumber_leading_plus v =
     (case v of
        None \<Rightarrow> Fin 0
      | Some s \<Rightarrow>
          (let cleaned =
                 trim (dropWhile (\<lambda>c. c = 43) (trim (filter (\<lambda>c. c \<noteq> 44 \<and> c \<noteq> 34) s)));
               n = Number cleaned
           in if isFinite n then n else Fin 0))"

section \<open>Text Normalizer\<close>




section \<open>Date Decoder\<close>

text \<open>
  What the script can throw. \<open>TypeError\<close> is the language's own (reading \<open>length\<close> of
  \<open>undefined\<close>); the others are the \<open>Error\<close>s the script raises, one per message, and the
  failures of its collaborators.
\<close>

datatype jserr =
    TypeError
  | CsvTooShort
  | UnexpectedLayout
  | CouldNotInferColumns
  | TargetNotFound
  | HttpStatus nat
  | NetworkFailure
  | SyntaxError

text \<open>
  The three regular expressions of \<open>toISO\<close> are anchored at both ends and are sequences of
  \<open>\d\<close> and literal characters, the last one ending in \<open>\d{2,4}\<close>.
\<close>

datatype pat = D | L nat

fun matches :: "pat list \<Rightarrow> jsstring \<Rightarrow> bool" where
  "matches [] [] = True"
| "matches (D # ps) (c # cs) = (is_digit c \<and> matches ps cs)"
| "matches (L x # ps) (c # cs) = (c = x \<and> matches ps cs)"
| "matches _ _ = False"

definition re_iso :: "jsstring \<Rightarrow> bool" where
  "re_iso s = matches [D, D, D, D, L 45, D, D, L 45, D, D] s"

definition re_yymmdd :: "jsstring \<Rightarrow> bool" where
  "re_yymmdd s = matches [D, D, D, D, D, D] s"

definition re_slashed :: "jsstring \<Rightarrow> bool" where
  "re_slashed s =
     (matches [D, D, L 47, D, D, L 47, D, D] s
      \<or> matches [D, D, L 47, D, D, L 47, D, D, D] s
      \<or> matches [D, D, L 47, D, D, L 47, D, D, D, D] s)"

text \<open>\<open>s.slice(a, b)\<close> for \<open>0 \<le> a \<le> b\<close>.\<close>

definition slice :: "nat \<Rightarrow> nat \<Rightarrow> jsstring \<Rightarrow> jsstring" where
  "slice a b s = take (b - a) (drop a s)"

text \<open>
  \<open>toISO(md)\<close> on a string. \<open>!md\<close> holds of the empty string. The destructuring
  \<open>[m,d,yr] = md.split('/')\<close> leaves \<open>yr\<close> undefined when there are fewer than three pieces,
  and \<open>y.length\<close> then throws.
\<close>

definition toISO :: "jsstring \<Rightarrow> jserr + jsstring" where
  "toISO md =
     (if md = [] then Inr md
      else if re_iso md then Inr md
      else if re_yymmdd md then
        (let yy = slice 0 2 md; mm = slice 2 4 md; dd = slice 4 6 md;
             year = (if js_gt (Number yy) (Fin 70) then js ''19'' @ yy else js ''20'' @ yy)
         in Inr (year @ js ''-'' @ mm @ js ''-'' @ dd))
      else if re_slashed md then
        (case split_unit 47 [] md of
           m # d # yr # _ \<Rightarrow>
             (let y = (if length yr = 2
                       then (if js_gt (Number yr) (Fin 70) then js ''19'' else js ''20'') @ yr
                       else yr)
              in Inr (y @ js ''-'' @ m @ js ''-'' @ d))
         | _ \<Rightarrow> Inl TypeError)
      else Inr md)"

text \<open>
  The claim's words, for comparison with \<open>toISO\<close>: the three recognised shapes of a token
  by position, the century of a two-digit year by its decimal value, and the decoded date.
  The year of the slashed shape has two to four digits.
\<close>

definition canonical_date :: "jsstring \<Rightarrow> bool" where
  "canonical_date s =
     (length s = 10 \<and> list_all is_digit (take 4 s) \<and> s ! 4 = 45
      \<and> list_all is_digit (take 2 (drop 5 s)) \<and> s ! 7 = 45 \<and> list_all is_digit (drop 8 s))"

definition six_digit_date :: "jsstring \<Rightarrow> bool" where
  "six_digit_date s = (length s = 6 \<and> list_all is_digit s)"

definition slashed_date :: "jsstring \<Rightarrow> bool" where
  "slashed_date s =
     (8 \<le> length s \<and> length s \<le> 10 \<and> list_all is_digit (take 2 s) \<and> s ! 2 = 47
      \<and> list_all is_digit (take 2 (drop 3 s)) \<and> s ! 5 = 47 \<and> list_all is_digit (drop 6 s))"

definition century :: "jsstring \<Rightarrow> jsstring" where
  "century yy = (if 70 < dec_val yy then js ''19'' else js ''20'')"

definition decoded_date :: "jsstring \<Rightarrow> jsstring" where
  "decoded_date s =
     (if canonical_date s then s
      else if six_digit_date s then
        century (take 2 s) @ take 2 s @ js ''-'' @ take 2 (drop 2 s) @ js ''-'' @ drop 4 s
      else if slashed_date s then
        (if length s = 8 then century (drop 6 s) else []) @ drop 6 s
          @ js ''-'' @ take 2 s @ js ''-'' @ take 2 (drop 3 s)
      else s)"

section \<open>Record Parser\<close>

record ParsedRecord =
  market :: jsstring
  reportDate :: jsstring
  nonCommLong :: jsnum
  nonCommShort :: jsnum

subsection \<open>Delimited format\<close>

text \<open>
  The loop of \<open>parseCSVLine\<close>: \<open>out\<close>, \<open>cur\<close> and \<open>inQuotes\<close> are its variables; after the
  last character \<open>cur\<close> is pushed.
\<close>

fun csv_scan :: "jsstring \<Rightarrow> jsstring list \<Rightarrow> jsstring \<Rightarrow> bool \<Rightarrow> jsstring list" where
  "csv_scan [] out cur inQuotes = out @ [cur]"
| "csv_scan (ch # rest) out cur inQuotes =
     (if ch = 34 then csv_scan rest out cur (\<not> inQuotes)
      else if ch = 44 \<and> \<not> inQuotes then csv_scan rest (out @ [cur]) [] inQuotes
      else csv_scan rest out (cur @ [ch]) inQuotes)"

definition parseCSVLine :: "jsstring \<Rightarrow> jsstring list" where
  "parseCSVLine line = map trim (csv_scan line [] [] False)"

definition CSV_IDX_DATE_ISO :: nat where
  "CSV_IDX_DATE_ISO = 2"

definition CSV_IDX_NONCOMM_LONG :: nat where
  "CSV_IDX_NONCOMM_LONG = 8"

definition CSV_IDX_NONCOMM_SHORT :: nat where
  "CSV_IDX_NONCOMM_SHORT = 9"

text \<open>\<open>s.replace(/^"|"$/g, '')\<close>: a double quote at the start and one at the end are deleted.\<close>

definition strip_edge_quotes :: "jsstring \<Rightarrow> jsstring" where
  "strip_edge_quotes s =
     (let s1 = (if s \<noteq> [] \<and> hd s = 34 then tl s else s)
      in if s1 \<noteq> [] \<and> last s1 = 34 then butlast s1 else s1)"

definition parseCSVRecord :: "jsstring \<Rightarrow> jserr + ParsedRecord" where
  "parseCSVRecord line =
     (let cols = parseCSVLine line
      in if length cols < 10 then Inl CsvTooShort
         else
           (let market = strip_edge_quotes (cols ! 0);
                dateToken = (if cols ! CSV_IDX_DATE_ISO \<noteq> [] then cols ! CSV_IDX_DATE_ISO else cols ! 1);
                nonCommLong = toNumber (nth_opt cols CSV_IDX_NONCOMM_LONG);
                nonCommShort = toNumber (nth_opt cols CSV_IDX_NONCOMM_SHORT)
            in case toISO dateToken of
                 Inl e \<Rightarrow> Inl e
               | Inr d \<Rightarrow>
                   Inr \<lparr>market = market, reportDate = d,
                        nonCommLong = nonCommLong, nonCommShort = nonCommShort\<rparr>))"

text \<open>
  The CSV line of the end-to-end scenario: three quoted fields, four empty ones, three numbers.
\<close>

definition synthetic_line :: jsstring where
  "synthetic_line =
     [34] @ js ''E-MINI NASDAQ-100 STOCK INDEX'' @ [34] @ js '','' @ [34] @ js ''250805'' @ [34]
     @ js '','' @ [34] @ js ''2025-08-05'' @ [34] @ js '',,,,,100000,30000,20000''"

subsection \<open>Fixed-width format\<close>

text \<open>
  The loop over the index pairs: the first pair with a positive decoded value is taken
  (\<open>break\<close>); \<open>None\<close> is the loop running out with \<open>nonCommLong\<close> still \<open>null\<close>.
\<close>

fun probe_pairs :: "(nat \<times> nat) list \<Rightarrow> jsstring list \<Rightarrow> (jsnum \<times> jsnum) option" where
  "probe_pairs [] parts = None"
| "probe_pairs ((iL, iS) # rest) parts =
     (let a = toNumber (nth_opt parts iL); b = toNumber (nth_opt parts iS)
      in if js_gt a (Fin 0) \<or> js_gt b (Fin 0) then Some (a, b) else probe_pairs rest parts)"

definition column_pairs :: "(nat \<times> nat) list" where
  "column_pairs = [(2, 3), (3, 4), (4, 5), (5, 6)]"

definition parseFixedWidth :: "jsstring \<Rightarrow> jserr + ParsedRecord" where
  "parseFixedWidth line =
     (let parts = split_ws2 [] (trim line)
      in if length parts < 5 then Inl UnexpectedLayout
         else
           (let market = parts ! 0; dateToken = parts ! 1
            in case probe_pairs column_pairs parts of
                 None \<Rightarrow> Inl CouldNotInferColumns
               | Some (a, b) \<Rightarrow>
                   (case toISO dateToken of
                      Inl e \<Rightarrow> Inl e
                    | Inr d \<Rightarrow>
                        Inr \<lparr>market = market, reportDate = d,
                             nonCommLong = a, nonCommShort = b\<rparr>)))"

text \<open>
  For the statements about the probe: the columns of a line, whether a pair of column
  indices has a positive decoded value, and a piece of text that holds no separator (no two
  adjacent white-space characters, none at its ends).
\<close>

definition fixed_columns :: "jsstring \<Rightarrow> jsstring list" where
  "fixed_columns line = split_ws2 [] (trim line)"

definition pair_positive :: "jsstring list \<Rightarrow> nat \<times> nat \<Rightarrow> bool" where
  "pair_positive parts p =
     (js_gt (toNumber (nth_opt parts (fst p))) (Fin 0)
      \<or> js_gt (toNumber (nth_opt parts (snd p))) (Fin 0))"

fun no_ws_pair :: "jsstring \<Rightarrow> bool" where
  "no_ws_pair (c # d # cs) = (\<not> (is_ws c \<and> is_ws d) \<and> no_ws_pair (d # cs))"
| "no_ws_pair _ = True"

definition column_text :: "jsstring \<Rightarrow> bool" where
  "column_text p = (p \<noteq> [] \<and> \<not> is_ws (hd p) \<and> \<not> is_ws (last p) \<and> no_ws_pair p)"

text \<open>Columns written one after the other with the same separator between them.\<close>

fun join_with :: "jsstring \<Rightarrow> jsstring list \<Rightarrow> jsstring" where
  "join_with sep [] = []"
| "join_with sep [p] = p"
| "join_with sep (p # q # ps) = p @ sep @ join_with sep (q # ps)"

section \<open>Row Locator\<close>










section \<open>Snapshot Reconciler and the run\<close>

text \<open>
  The artifact, as the script writes it and as the next run reads it back. JSON text is not
  modelled: a file holds the document itself, or something \<open>JSON.parse\<close> rejects. A document
  read back may lack \<open>cot\<close> or \<open>weekEnding\<close> (\<open>None\<close>: missing or \<open>null\<close>), and a row's \<open>value\<close>
  and \<open>prev\<close> may be \<open>null\<close>.
\<close>

record row =
  label :: jsstring
  row_value :: "jsnum option"
  row_prev :: "jsnum option"
  row_max :: jsnum

record cot_view =
  weekEnding :: "jsstring option"
  source :: jsstring
  instrument :: jsstring
  rows :: "row list"

record aaii_row =
  aaii_label :: jsstring
  pct :: jsnum
  aaii_prev :: jsnum

record aaii_view =
  aaii_weekEnding :: jsstring
  aaii_source :: jsstring
  data :: "aaii_row list"

record artifact =
  cot :: "cot_view option"
  aaii :: "aaii_view option"
  updated :: jsstring
  version :: nat


text \<open>
  Lines 184 to 191 of the script: the loop over the prior rows assigns on every row with the
  label, so the last such row stays.
\<close>

fun scan_rows :: "row list \<Rightarrow> jsnum option \<times> jsnum option \<times> jsnum option
    \<Rightarrow> jsnum option \<times> jsnum option \<times> jsnum option" where
  "scan_rows [] acc = acc"
| "scan_rows (r # rs) (prevLong, prevShort, prevNet) =
     scan_rows rs
       (if label r = js ''Non-Comm Long'' then row_value r else prevLong,
        if label r = js ''Non-Comm Short'' then row_value r else prevShort,
        if label r = js ''Non-Comm Net'' then row_value r else prevNet)"

text \<open>
  The result is \<open>(prevLong, prevShort, prevNet)\<close>. \<open>prev?.cot?.weekEnding\<close> is falsy when
  a link of the chain is missing and when \<open>weekEnding\<close> is the empty string.
\<close>

definition previous_values :: "artifact option \<Rightarrow> jsstring
    \<Rightarrow> jsnum option \<times> jsnum option \<times> jsnum option" where
  "previous_values prev newDate =
     (case prev of
        None \<Rightarrow> (None, None, None)
      | Some p \<Rightarrow>
          (case cot p of
             None \<Rightarrow> (None, None, None)
           | Some c \<Rightarrow>
               (case weekEnding c of
                  None \<Rightarrow> (None, None, None)
                | Some w \<Rightarrow>
                    if w \<noteq> [] \<and> w \<noteq> newDate
                    then scan_rows (rows c) (None, None, None)
                    else (None, None, None))))"



text \<open>What the run is given: the outcome of the fetch, the environment and the clock.\<close>

datatype fetched = NetworkError | Response nat jsstring

record world =
  fetch_outcome :: fetched
  env :: "jsstring \<Rightarrow> jsstring option"
  now :: jsstring


text \<open>\<open>Number(process.env.X) || 0\<close>: \<open>Number(undefined)\<close> is \<open>NaN\<close>; \<open>NaN\<close> and 0 are falsy.\<close>

definition env_number :: "world \<Rightarrow> string \<Rightarrow> jsnum" where
  "env_number w name =
     (let n = (case env w (js name) of None \<Rightarrow> NaN | Some s \<Rightarrow> Number s)
      in if n = NaN \<or> n = Fin 0 then Fin 0 else n)"

definition build_output :: "world \<Rightarrow> artifact option \<Rightarrow> ParsedRecord \<Rightarrow> artifact" where
  "build_output w prev parsed =
     (let net = js_minus (nonCommLong parsed) (nonCommShort parsed);
          (prevLong, prevShort, prevNet) = previous_values prev (reportDate parsed);
          cot = \<lparr>weekEnding = Some (reportDate parsed),
                 source = js ''cftc-direct'',
                 instrument = market parsed,
                 rows =
                   [\<lparr>label = js ''Non-Comm Net'', row_value = Some net,
                      row_prev = prevNet, row_max = Fin 500000\<rparr>,
                    \<lparr>label = js ''Non-Comm Long'', row_value = Some (nonCommLong parsed),
                      row_prev = prevLong, row_max = Fin 600000\<rparr>,
                    \<lparr>label = js ''Non-Comm Short'', row_value = Some (nonCommShort parsed),
                      row_prev = prevShort, row_max = Fin 600000\<rparr>]\<rparr>;
          aaii = \<lparr>aaii_weekEnding = reportDate parsed,
                  aaii_source = js ''manual'',
                  data =
                    [\<lparr>aaii_label = js ''Bullish'', pct = env_number w ''AAII_BULLISH'',
                       aaii_prev = env_number w ''AAII_BULLISH_PREV''\<rparr>,
                     \<lparr>aaii_label = js ''Neutral'', pct = env_number w ''AAII_NEUTRAL'',
                       aaii_prev = env_number w ''AAII_NEUTRAL_PREV''\<rparr>,
                     \<lparr>aaii_label = js ''Bearish'', pct = env_number w ''AAII_BEARISH'',
                       aaii_prev = env_number w ''AAII_BEARISH_PREV''\<rparr>]\<rparr>
      in \<lparr>cot = Some cot, aaii = Some aaii, updated = now w, version = 1\<rparr>)"







section \<open>Properties of the numbers\<close>

text \<open>A natural number below \<open>2^53\<close> is a double: rounding leaves it as it is.\<close>

lemma bit_len_upper: "n < 2 ^ k \<Longrightarrow> bit_len n \<le> k"
proof (induction k arbitrary: n)
  case 0
  then show ?case by (subst bit_len.simps) simp
next
  case (Suc k)
  have "n div 2 < 2 ^ k" using Suc.prems by simp
  then have "bit_len (n div 2) \<le> k" by (rule Suc.IH)
  then show ?case by (subst bit_len.simps) simp
qed

lemma bit_len_lower: "0 < n \<Longrightarrow> 2 ^ (bit_len n - 1) \<le> n"
proof (induction n rule: bit_len.induct)
  case (1 n)
  show ?case
  proof (cases "n div 2 = 0")
    case True
    with "1.prems" have "n = 1" by (simp add: div_eq_0_iff)
    then show ?thesis by (subst bit_len.simps, subst bit_len.simps) simp
  next
    case False
    then have pos: "0 < n div 2" by simp
    have ih: "2 ^ (bit_len (n div 2) - 1) \<le> n div 2"
      using "1.IH" "1.prems" pos by simp
    have bl: "bit_len n = Suc (bit_len (n div 2))"
      using "1.prems" by (subst bit_len.simps) simp
    have "0 < bit_len (n div 2)" using pos by (subst bit_len.simps) simp
    then have "(2::nat) ^ (bit_len n - 1) = 2 * 2 ^ (bit_len (n div 2) - 1)"
      by (simp add: bl power_eq_if)
    also have "\<dots> \<le> 2 * (n div 2)" using ih by simp
    also have "\<dots> \<le> n" by simp
    finally show ?thesis .
  qed
qed

lemma bit_len_pos: "0 < n \<Longrightarrow> 0 < bit_len n"
  by (subst bit_len.simps) simp

lemma round_half_even_of_int: "round_half_even (of_int k) = k"
  by (simp add: round_half_even_def)

lemma floor_log2_of_nat:
  assumes "0 < n"
  shows "floor_log2 (of_nat n) = int (bit_len n) - 1"
proof -
  have q: "quotient_of (of_nat n) = (int n, 1)" by simp
  have b1: "bit_len (Suc 0) = 1" by (subst bit_len.simps, subst bit_len.simps) simp
  have ge: "0 \<le> int (bit_len n) - 1" using bit_len_pos[OF assms] by simp
  have "(2::nat) ^ (bit_len n - 1) \<le> n" using assms by (rule bit_len_lower)
  then have "(of_nat ((2::nat) ^ (bit_len n - 1)) :: rat) \<le> of_nat n" by (simp only: of_nat_le_iff)
  then have "pow2 (int (bit_len n) - 1) \<le> of_nat n"
    using ge bit_len_pos[OF assms] by (simp add: pow2_def nat_diff_distrib')
  then show ?thesis
    by (simp add: floor_log2_def q b1)
qed

lemma round_pos_of_nat:
  assumes "0 < n" and "n < 2 ^ 53"
  shows "round_pos (of_nat n) = Some (of_nat n)"
proof -
  define e where "e = int (bit_len n) - 1"
  have fl: "floor_log2 (of_nat n) = e" unfolding e_def using assms(1) by (rule floor_log2_of_nat)
  have e_le: "e \<le> 52" using bit_len_upper[OF assms(2)] by (simp add: e_def)
  have e_ge: "0 \<le> e" using bit_len_pos[OF assms(1)] by (simp add: e_def)
  define k where "k = nat (52 - e)"
  have u: "pow2 (e - 52) = 1 / 2 ^ k"
    using e_le by (auto simp: pow2_def k_def)
  have mx: "max e (- 1022) = e" using e_ge by simp
  have quot: "(of_nat n :: rat) / (1 / 2 ^ k) = of_int (int n * 2 ^ k)" by simp
  have small: "\<not> (2 ^ 1024 \<le> (of_nat n :: rat))"
  proof -
    have "(of_nat n :: rat) < of_nat (2 ^ 53)" using assms(2) by (simp only: of_nat_less_iff)
    also have "\<dots> \<le> 2 ^ 1024" by simp
    finally show ?thesis by simp
  qed
  show ?thesis
    unfolding round_pos_def fl mx u Let_def quot round_half_even_of_int
    using small by simp
qed

lemma round_double_of_nat: "n < 2 ^ 53 \<Longrightarrow> round_double (of_nat n) = Fin (of_nat n)"
  by (cases "n = 0") (simp_all add: round_double_def round_pos_of_nat)

section \<open>Properties of the Numeric Decoder\<close>

lemma trim_Nil: "trim [] = []"
  by (simp add: trim_def)

lemma dropWhile_hd: "xs \<noteq> [] \<Longrightarrow> \<not> P (hd xs) \<Longrightarrow> dropWhile P xs = xs"
  by (cases xs) auto

lemma trim_id: "s \<noteq> [] \<Longrightarrow> \<not> is_ws (hd s) \<Longrightarrow> \<not> is_ws (last s) \<Longrightarrow> trim s = s"
proof -
  assume a: "s \<noteq> []" "\<not> is_ws (hd s)" "\<not> is_ws (last s)"
  have 1: "dropWhile is_ws s = s" using a(1,2) by (rule dropWhile_hd)
  have "rev s \<noteq> []" "\<not> is_ws (hd (rev s))" using a(1,3) by (simp_all add: hd_rev)
  then have 2: "dropWhile is_ws (rev s) = rev s" by (rule dropWhile_hd)
  show ?thesis by (simp add: trim_def 1 2)
qed

lemma digit_not_ws: "is_digit c \<Longrightarrow> \<not> is_ws c"
  by (auto simp: is_digit_def is_ws_def)

lemma digits_hd_last:
  assumes "s \<noteq> []" "list_all is_digit s"
  shows "is_digit (hd s)" "is_digit (last s)"
  using assms by (auto simp: list_all_iff)

lemma trim_digits: "list_all is_digit s \<Longrightarrow> trim s = s"
  by (cases "s = []") (auto simp: trim_Nil intro!: trim_id digit_not_ws digits_hd_last)

lemma dec_val_foldl_bound:
  "list_all is_digit s \<Longrightarrow> foldl (\<lambda>acc c. acc * 10 + (c - 48)) a s < (a + 1) * 10 ^ length s"
proof (induction s arbitrary: a)
  case Nil
  show ?case by simp
next
  case (Cons c s)
  then have rest: "list_all is_digit s" by simp
  have d: "c - 48 \<le> 9" using Cons.prems by (auto simp: is_digit_def)
  have "foldl (\<lambda>acc c. acc * 10 + (c - 48)) (a * 10 + (c - 48)) s
          < (a * 10 + (c - 48) + 1) * 10 ^ length s" using rest by (rule Cons.IH)
  also have "\<dots> \<le> ((a + 1) * 10) * 10 ^ length s"
    using d by (intro mult_right_mono) auto
  finally show ?case by (simp add: algebra_simps)
qed

lemma dec_val_bound: "list_all is_digit s \<Longrightarrow> dec_val s < 10 ^ length s"
  using dec_val_foldl_bound[of s 0] by (simp add: dec_val_def)

lemma str_mantissa_digits:
  "s \<noteq> [] \<Longrightarrow> list_all is_digit s \<Longrightarrow> str_mantissa s = Some (of_nat (dec_val s))"
proof -
  assume a: "s \<noteq> []" "list_all is_digit s"
  then have tw: "takeWhile is_digit s = s" and dw: "dropWhile is_digit s = []"
    by (simp_all add: list_all_iff)
  show ?thesis unfolding str_mantissa_def Let_def tw dw using a by (simp add: dec_digits_def)
qed

lemma str_unsigned_decimal_digits:
  assumes "s \<noteq> []" "list_all is_digit s"
  shows "str_unsigned_decimal s = Some (of_nat (dec_val s))"
proof -
  have "\<forall>c \<in> set s. c \<noteq> 101 \<and> c \<noteq> 69"
    using assms(2) by (auto simp: list_all_iff is_digit_def)
  then have tw: "takeWhile (\<lambda>c. c \<noteq> 101 \<and> c \<noteq> 69) s = s"
    and dw: "dropWhile (\<lambda>c. c \<noteq> 101 \<and> c \<noteq> 69) s = []"
    by simp_all
  show ?thesis
    unfolding str_unsigned_decimal_def Let_def tw dw
    by (simp add: str_mantissa_digits[OF assms])
qed

lemma str_non_decimal_digits: "list_all is_digit s \<Longrightarrow> str_non_decimal s = None"
  by (auto simp: str_non_decimal_def is_digit_def split: list.splits)

lemma Number_digits:
  assumes "s \<noteq> []" "list_all is_digit s" "dec_val s < 2 ^ 53"
  shows "Number s = Fin (of_nat (dec_val s))"
proof -
  have hd: "hd s \<noteq> 43" "hd s \<noteq> 45" using digits_hd_last(1)[OF assms(1,2)] by (auto simp: is_digit_def)
  have "73 \<notin> set s" using assms(2) by (auto simp: list_all_iff is_digit_def)
  then have inf: "s \<noteq> js ''Infinity''" by (auto simp: js_def)
  have "str_decimal s = round_double (of_nat (dec_val s))"
    using assms(1) hd inf by (simp add: str_decimal_def str_unsigned_decimal_digits[OF assms(1,2)])
  then show ?thesis
    using assms(1) by (simp add: Number_def trim_digits[OF assms(2)] str_non_decimal_digits[OF assms(2)]
        round_double_of_nat[OF assms(3)])
qed

lemma toNumber_digits:
  assumes "s \<noteq> []" "list_all is_digit s" "length s \<le> 15"
  shows "toNumber (Some s) = Fin (of_nat (dec_val s))"
proof -
  have "\<forall>c \<in> set s. c \<noteq> 43 \<and> c \<noteq> 44 \<and> c \<noteq> 34"
    using assms(2) by (auto simp: list_all_iff is_digit_def)
  then have f: "filter (\<lambda>c. c \<noteq> 44 \<and> c \<noteq> 34 \<and> c \<noteq> 43) s = s"
    by (simp add: filter_id_conv)
  have "dec_val s < 10 ^ length s" using assms(2) by (rule dec_val_bound)
  also have "\<dots> \<le> (10::nat) ^ 15" using assms(3) by (intro power_increasing) auto
  also have "\<dots> < 2 ^ 53" by simp
  finally have "dec_val s < 2 ^ 53" .
  then show ?thesis
    by (simp add: toNumber_def Let_def f trim_digits[OF assms(2)] Number_digits[OF assms(1,2)])
qed

lemmas number_eval =
  toNumber_def toNumber_leading_plus_def Number_def str_non_decimal_def str_decimal_def
  str_unsigned_decimal_def str_mantissa_def str_exponent_def dec_digits_def dec_val_def
  pow10_def digits_in_def digit_of_def round_double_def round_pos_def floor_log2_def
  pow2_def round_half_even_def bit_len.simps Let_def js_def trim_def is_ws_def is_digit_def

lemma isFinite_toNumber: "isFinite (toNumber v)"
  by (cases v) (simp_all add: toNumber_def Let_def)

lemma toNumber_filter:
  "toNumber (Some s) =
     (let r = trim (filter (\<lambda>c. c \<noteq> 44 \<and> c \<noteq> 34 \<and> c \<noteq> 43) s)
      in if isFinite (Number r) then Number r else Fin 0)"
  by (simp add: toNumber_def Let_def conj_commute conj_left_commute)

text \<open>
  Claim C5, as the script has it. The decoder returns 0 for \<open>null\<close> and \<open>undefined\<close>; on
  a string it deletes every comma, every double quote and every plus sign (not only the
  leading ones), trims, and converts the rest with \<open>Number\<close>, returning 0 when that is not
  finite. It has no failing branch and its result is always finite. A string of one to
  fifteen decimal digits decodes to its decimal value. The five examples of the claim hold.
\<close>

theorem toNumber_decodes:
  "toNumber None = Fin 0
   \<and> toNumber (Some s) =
       (let r = trim (filter (\<lambda>c. c \<noteq> 44 \<and> c \<noteq> 34 \<and> c \<noteq> 43) s)
        in if isFinite (Number r) then Number r else Fin 0)
   \<and> isFinite (toNumber v)
   \<and> (s \<noteq> [] \<and> list_all is_digit s \<and> length s \<le> 15
       \<longrightarrow> toNumber (Some s) = Fin (of_nat (dec_val s)))
   \<and> toNumber (Some (js ''12,345'')) = Fin 12345
   \<and> toNumber (Some (34 # js ''1,000'' @ [34])) = Fin 1000
   \<and> toNumber (Some (js ''+50'')) = Fin 50
   \<and> toNumber (Some (js ''abc'')) = Fin 0"
proof (intro conjI)
  show "toNumber None = Fin 0" by (simp add: toNumber_def)
  show "toNumber (Some s) =
       (let r = trim (filter (\<lambda>c. c \<noteq> 44 \<and> c \<noteq> 34 \<and> c \<noteq> 43) s)
        in if isFinite (Number r) then Number r else Fin 0)"
    by (rule toNumber_filter)
  show "isFinite (toNumber v)" by (rule isFinite_toNumber)
  show "s \<noteq> [] \<and> list_all is_digit s \<and> length s \<le> 15
       \<longrightarrow> toNumber (Some s) = Fin (of_nat (dec_val s))"
    using toNumber_digits by blast
  show "toNumber (Some (js ''12,345'')) = Fin 12345" by (simp add: number_eval)
  show "toNumber (Some (34 # js ''1,000'' @ [34])) = Fin 1000" by (simp add: number_eval)
  show "toNumber (Some (js ''+50'')) = Fin 50" by (simp add: number_eval)
  show "toNumber (Some (js ''abc'')) = Fin 0" by (simp add: number_eval)
qed

text \<open>The theorem at the digit string \<open>30000\<close> and at a signed token with spaces around it.\<close>

theorem toNumber_decodes_witness:
  "toNumber (Some (js ''30000'')) = Fin 30000 \<and> toNumber (Some (js '' -40 '')) = Fin (- 40)"
proof
  have "js ''30000'' \<noteq> [] \<and> list_all is_digit (js ''30000'') \<and> length (js ''30000'') \<le> 15"
    by (simp add: js_def is_digit_def)
  with toNumber_decodes [of "js ''30000''"]
  have "toNumber (Some (js ''30000'')) = Fin (of_nat (dec_val (js ''30000'')))" by blast
  then show "toNumber (Some (js ''30000'')) = Fin 30000" by (simp add: dec_val_def js_def)
  show "toNumber (Some (js '' -40 '')) = Fin (- 40)" by (simp add: number_eval)
qed

text \<open>
  Claim C5 as it is written fails on a plus sign that is not leading: with only the leading
  plus signs deleted, \<open>1+2\<close> is left as it is, does not convert (\<open>Number\<close> gives \<open>NaN\<close>),
  and the result would be 0; the script deletes the plus sign and returns 12.
\<close>

theorem toNumber_inner_plus_counterexample:
  "toNumber (Some (js ''1+2'')) = Fin 12
   \<and> Number (js ''1+2'') = NaN
   \<and> toNumber_leading_plus (Some (js ''1+2'')) = Fin 0"
  by (simp add: number_eval)

section \<open>Properties of the Date Decoder\<close>

lemma matches_length: "matches ps s \<Longrightarrow> length s = length ps"
  by (induction ps s rule: matches.induct) auto

lemma len6: "length (s::nat list) = 6 \<Longrightarrow> \<exists>a b c d e f. s = [a, b, c, d, e, f]"
  by (auto simp: eval_nat_numeral length_Suc_conv)

lemma len8: "length (s::nat list) = 8 \<Longrightarrow> \<exists>a b c d e f g h. s = [a, b, c, d, e, f, g, h]"
  by (auto simp: eval_nat_numeral length_Suc_conv)

lemma len9: "length (s::nat list) = 9 \<Longrightarrow> \<exists>a b c d e f g h i. s = [a, b, c, d, e, f, g, h, i]"
  by (auto simp: eval_nat_numeral length_Suc_conv)

lemma len10: "length (s::nat list) = 10 \<Longrightarrow> \<exists>a b c d e f g h i j. s = [a, b, c, d, e, f, g, h, i, j]"
  by (auto simp: eval_nat_numeral length_Suc_conv)

lemma re_iso_canonical: "re_iso s = canonical_date s"
proof (cases "length s = 10")
  case True
  then obtain a b c d e f g h i j where "s = [a, b, c, d, e, f, g, h, i, j]"
    using len10[OF True] by (elim exE) (rule that)
  then show ?thesis by (auto simp: re_iso_def canonical_date_def)
next
  case False
  then show ?thesis
    using matches_length[of "[D, D, D, D, L 45, D, D, L 45, D, D]" s]
    by (auto simp: re_iso_def canonical_date_def)
qed

lemma re_yymmdd_six: "re_yymmdd s = six_digit_date s"
proof (cases "length s = 6")
  case True
  then obtain a b c d e f where "s = [a, b, c, d, e, f]"
    using len6[OF True] by (elim exE) (rule that)
  then show ?thesis by (auto simp: re_yymmdd_def six_digit_date_def)
next
  case False
  then show ?thesis
    using matches_length[of "[D, D, D, D, D, D]" s]
    by (auto simp: re_yymmdd_def six_digit_date_def)
qed

lemma re_slashed_date: "re_slashed s = slashed_date s"
proof -
  consider "length s = 8" | "length s = 9" | "length s = 10" | "length s \<notin> {8, 9, 10}"
    by auto
  then show ?thesis
  proof cases
    case 1
    then obtain a b c d e f g h where "s = [a, b, c, d, e, f, g, h]"
      using len8[OF 1] by (elim exE) (rule that)
    then show ?thesis by (auto simp: re_slashed_def slashed_date_def)
  next
    case 2
    then obtain a b c d e f g h i where "s = [a, b, c, d, e, f, g, h, i]"
      using len9[OF 2] by (elim exE) (rule that)
    then show ?thesis by (auto simp: re_slashed_def slashed_date_def)
  next
    case 3
    then obtain a b c d e f g h i j where "s = [a, b, c, d, e, f, g, h, i, j]"
      using len10[OF 3] by (elim exE) (rule that)
    then show ?thesis by (auto simp: re_slashed_def slashed_date_def)
  next
    case 4
    have "\<not> re_slashed s"
      using 4 matches_length[of "[D, D, L 47, D, D, L 47, D, D]" s]
        matches_length[of "[D, D, L 47, D, D, L 47, D, D, D]" s]
        matches_length[of "[D, D, L 47, D, D, L 47, D, D, D, D]" s]
      by (auto simp: re_slashed_def)
    moreover have "\<not> slashed_date s" using 4 by (auto simp: slashed_date_def)
    ultimately show ?thesis by simp
  qed
qed

lemma gt70_two_digits:
  assumes "is_digit a" "is_digit b"
  shows "js_gt (Number [a, b]) (Fin 70) = (70 < dec_val [a, b])"
proof -
  have d: "list_all is_digit [a, b]" using assms by simp
  have "dec_val [a, b] < 10 ^ length [a, b]" using d by (rule dec_val_bound)
  then have "dec_val [a, b] < 2 ^ 53" by simp
  then have "Number [a, b] = Fin (of_nat (dec_val [a, b]))"
    using d by (intro Number_digits) simp_all
  then show ?thesis by simp
qed

lemma digit_not_slash: "is_digit c \<Longrightarrow> c \<noteq> 47"
  by (auto simp: is_digit_def)

lemma toISO_six:
  assumes "six_digit_date s"
  shows "toISO s = Inr (decoded_date s)"
proof -
  obtain a b c d e f where s: "s = [a, b, c, d, e, f]"
    using assms len6[of s] unfolding six_digit_date_def by (elim conjE exE) blast
  have dg: "is_digit a" "is_digit b" using assms by (simp_all add: s six_digit_date_def)
  have nc: "\<not> canonical_date s" by (simp add: s canonical_date_def)
  show ?thesis
    using assms
    by (simp add: toISO_def re_iso_canonical re_yymmdd_six nc decoded_date_def Let_def)
      (simp add: s slice_def gt70_two_digits[OF dg] century_def)
qed

lemma toISO_slashed:
  assumes "slashed_date s" "\<not> canonical_date s" "\<not> six_digit_date s"
  shows "toISO s = Inr (decoded_date s)"
proof -
  have ne: "s \<noteq> []" using assms(1) by (auto simp: slashed_date_def)
  have "8 \<le> length s" "length s \<le> 10" using assms(1) by (simp_all add: slashed_date_def)
  then consider "length s = 8" | "length s = 9" | "length s = 10"
    by linarith
  then show ?thesis
  proof cases
    case 1
    then obtain a b c d e f g h where s: "s = [a, b, c, d, e, f, g, h]"
      using len8[OF 1] by (elim exE) (rule that)
    have dg: "is_digit a" "is_digit b" "is_digit d" "is_digit e" "is_digit g" "is_digit h"
      and sl: "c = 47" "f = 47"
      using assms(1) by (simp_all add: s slashed_date_def)
    show ?thesis
      using assms ne
      by (simp add: toISO_def re_iso_canonical re_yymmdd_six re_slashed_date decoded_date_def)
        (simp add: s sl dg digit_not_slash gt70_two_digits century_def js_def)
  next
    case 2
    then obtain a b c d e f g h i where s: "s = [a, b, c, d, e, f, g, h, i]"
      using len9[OF 2] by (elim exE) (rule that)
    have dg: "is_digit a" "is_digit b" "is_digit d" "is_digit e" "is_digit g" "is_digit h" "is_digit i"
      and sl: "c = 47" "f = 47"
      using assms(1) by (simp_all add: s slashed_date_def)
    show ?thesis
      using assms ne
      by (simp add: toISO_def re_iso_canonical re_yymmdd_six re_slashed_date decoded_date_def)
        (simp add: s sl dg digit_not_slash js_def)
  next
    case 3
    then obtain a b c d e f g h i j where s: "s = [a, b, c, d, e, f, g, h, i, j]"
      using len10[OF 3] by (elim exE) (rule that)
    have dg: "is_digit a" "is_digit b" "is_digit d" "is_digit e" "is_digit g" "is_digit h" "is_digit i" "is_digit j"
      and sl: "c = 47" "f = 47"
      using assms(1) by (simp_all add: s slashed_date_def)
    show ?thesis
      using assms ne
      by (simp add: toISO_def re_iso_canonical re_yymmdd_six re_slashed_date decoded_date_def)
        (simp add: s sl dg digit_not_slash js_def)
  qed
qed

lemma toISO_refines: "toISO s = Inr (decoded_date s)"
proof -
  consider "canonical_date s" | "\<not> canonical_date s" "six_digit_date s"
    | "\<not> canonical_date s" "\<not> six_digit_date s" "slashed_date s"
    | "\<not> canonical_date s" "\<not> six_digit_date s" "\<not> slashed_date s"
    by blast
  then show ?thesis
  proof cases
    case 1
    then show ?thesis by (simp add: toISO_def re_iso_canonical decoded_date_def)
  next
    case 2
    then show ?thesis by (simp add: toISO_six)
  next
    case 3
    then show ?thesis by (simp add: toISO_slashed)
  next
    case 4
    then show ?thesis
      by (simp add: toISO_def re_iso_canonical re_yymmdd_six re_slashed_date decoded_date_def)
  qed
qed

lemmas date_eval =
  decoded_date_def canonical_date_def six_digit_date_def slashed_date_def century_def
  dec_val_def is_digit_def js_def




section \<open>Properties of the delimited parser\<close>

lemma set_trim: "set (trim s) \<subseteq> set s"
proof -
  have "set (trim s) = set (dropWhile is_ws (rev (dropWhile is_ws s)))" by (simp add: trim_def)
  also have "\<dots> \<subseteq> set (rev (dropWhile is_ws s))" by (rule set_dropWhileD[THEN subsetI]) 
  also have "\<dots> \<subseteq> set s" using set_dropWhileD[of _ is_ws s] by auto
  finally show ?thesis .
qed

lemma csv_scan_no_quote:
  "\<forall>f \<in> set out. 34 \<notin> set f \<Longrightarrow> 34 \<notin> set cur \<Longrightarrow>
   \<forall>f \<in> set (csv_scan s out cur q). 34 \<notin> set f"
  by (induction s out cur q rule: csv_scan.induct) auto

lemma parseCSVLine_no_quote: "f \<in> set (parseCSVLine line) \<Longrightarrow> 34 \<notin> set f"
  using csv_scan_no_quote[of "[]" "[]" line False] set_trim
  by (fastforce simp: parseCSVLine_def)

lemma strip_edge_quotes_id:
  assumes "34 \<notin> set s"
  shows "strip_edge_quotes s = s"
proof (cases "s = []")
  case True
  then show ?thesis by (simp add: strip_edge_quotes_def)
next
  case False
  then have "hd s \<in> set s" "last s \<in> set s" by simp_all
  with assms have "hd s \<noteq> 34" "last s \<noteq> 34" by auto
  then show ?thesis by (simp add: strip_edge_quotes_def)
qed

lemma split_unit_acc: "split_unit sep cur s = (cur @ hd (split_unit sep [] s)) # tl (split_unit sep [] s)"
proof (induction s arbitrary: cur)
  case Nil
  show ?case by simp
next
  case (Cons c s)
  show ?case
    by (cases "c = sep") (simp_all add: Cons.IH[of "cur @ [c]"] Cons.IH[of "[c]"])
qed

lemma csv_scan_unquoted:
  "34 \<notin> set s \<Longrightarrow> csv_scan s out cur False = out @ split_unit 44 cur s"
  by (induction s arbitrary: out cur) auto

lemma csv_scan_quoted:
  "34 \<notin> set f \<Longrightarrow> csv_scan (f @ 34 # rest) out cur True = csv_scan rest out (cur @ f) False"
  by (induction f arbitrary: cur) auto

lemma csv_scan_out: "csv_scan s out cur q = out @ csv_scan s [] cur q"
proof (induction s arbitrary: out cur q)
  case Nil
  show ?case by simp
next
  case (Cons c s)
  show ?case
    using Cons.IH[of "out @ [cur]" "[]"] Cons.IH[of "[cur]" "[]"]
    by (simp add: Cons.IH[of out])
qed

lemma parseCSVLine_unquoted:
  "34 \<notin> set line \<Longrightarrow> parseCSVLine line = map trim (split_unit 44 [] line)"
  by (simp add: parseCSVLine_def csv_scan_unquoted)

lemma parseCSVLine_quoted_field:
  assumes "34 \<notin> set f"
  shows "parseCSVLine (34 # f @ 34 # 44 # rest) = trim f # parseCSVLine rest"
proof -
  have "csv_scan (34 # f @ 34 # 44 # rest) [] [] False = csv_scan (44 # rest) [] ([] @ f) False"
    using csv_scan_quoted[OF assms, of "44 # rest" "[]" "[]"] by simp
  also have "\<dots> = csv_scan rest [f] [] False" by simp
  also have "\<dots> = [f] @ csv_scan rest [] [] False" by (rule csv_scan_out)
  finally show ?thesis by (simp add: parseCSVLine_def)
qed

lemma parseCSVRecord_short: "length (parseCSVLine line) < 10 \<Longrightarrow> parseCSVRecord line = Inl CsvTooShort"
  by (simp add: parseCSVRecord_def)

lemma parseCSVRecord_long:
  assumes "10 \<le> length (parseCSVLine line)"
  shows "parseCSVRecord line =
     Inr \<lparr>market = strip_edge_quotes (parseCSVLine line ! 0),
          reportDate = decoded_date (if parseCSVLine line ! 2 \<noteq> [] then parseCSVLine line ! 2
                                     else parseCSVLine line ! 1),
          nonCommLong = toNumber (Some (parseCSVLine line ! 8)),
          nonCommShort = toNumber (Some (parseCSVLine line ! 9))\<rparr>"
  using assms
  by (simp add: parseCSVRecord_def Let_def toISO_refines nth_opt_def CSV_IDX_DATE_ISO_def
      CSV_IDX_NONCOMM_LONG_def CSV_IDX_NONCOMM_SHORT_def)

lemma synthetic_cols:
  "parseCSVLine synthetic_line =
     [js ''E-MINI NASDAQ-100 STOCK INDEX'', js ''250805'', js ''2025-08-05'', [], [], [], [],
      js ''100000'', js ''30000'', js ''20000'']"
  by (simp add: parseCSVLine_def synthetic_line_def js_def trim_def is_ws_def)

lemma synthetic_record:
  "parseCSVRecord synthetic_line =
     Inr \<lparr>market = js ''E-MINI NASDAQ-100 STOCK INDEX'', reportDate = js ''2025-08-05'',
          nonCommLong = Fin 30000, nonCommShort = Fin 20000\<rparr>"
proof -
  have l: "toNumber (Some (js ''30000'')) = Fin 30000" by (simp add: number_eval)
  have s: "toNumber (Some (js ''20000'')) = Fin 20000" by (simp add: number_eval)
  have d: "decoded_date (js ''2025-08-05'') = js ''2025-08-05''" by (simp add: date_eval)
  have q: "strip_edge_quotes (js ''E-MINI NASDAQ-100 STOCK INDEX'') = js ''E-MINI NASDAQ-100 STOCK INDEX''"
    by (rule strip_edge_quotes_id) (simp add: js_def)
  have ne: "js ''2025-08-05'' \<noteq> []" by (simp add: js_def)
  show ?thesis
    by (simp add: parseCSVRecord_long synthetic_cols l s d q ne)
qed

lemma synthetic_rows:
  "map (\<lambda>r. (label r, row_value r, row_prev r))
     (rows (the (cot (build_output w None
        \<lparr>market = js ''E-MINI NASDAQ-100 STOCK INDEX'', reportDate = js ''2025-08-05'',
          nonCommLong = Fin 30000, nonCommShort = Fin 20000\<rparr>)))) =
     [(js ''Non-Comm Net'', Some (Fin 10000), None),
      (js ''Non-Comm Long'', Some (Fin 30000), None),
      (js ''Non-Comm Short'', Some (Fin 20000), None)]"
proof -
  have "round_double 10000 = Fin 10000" using round_double_of_nat[of 10000] by simp
  then show ?thesis
    by (simp add: build_output_def previous_values_def Let_def)
qed

lemma parseCSVRecord_errors: "parseCSVRecord line = Inl e \<Longrightarrow> e = CsvTooShort"
  by (auto simp: parseCSVRecord_def Let_def toISO_refines split: if_splits)

lemma short_cols: "parseCSVLine (js ''a, b ,c'') = [js ''a'', js ''b'', js ''c'']"
  by (simp add: parseCSVLine_def js_def trim_def is_ws_def)


text \<open>
  Claim C2. The delimited parser throws exactly when the line has fewer than ten fields, and
  then the error is the structural one. Otherwise it returns a record whose market is field
  0 with the quotes at its ends stripped, whose report date is the decoded field 2, or the
  decoded field 1 when field 2 is empty, and whose counts are the decoded fields 8 and 9.
  Splitting honours quotes: a quote toggles the mode and is never part of a field (so the
  stripping leaves a field as it is), a line without quotes is split at every comma, and a
  quoted field keeps its commas. For the line of the end-to-end scenario the record has
  Long=30000 and Short=20000, and the rows built from it on a first run carry Net=10000,
  Long=30000, Short=20000 with no previous values.
\<close>

theorem parseCSVRecord_fields:
  "(parseCSVRecord line = Inl CsvTooShort \<longleftrightarrow> length (parseCSVLine line) < 10)
   \<and> (parseCSVRecord line = Inl e \<longrightarrow> e = CsvTooShort)
   \<and> (10 \<le> length (parseCSVLine line) \<longrightarrow>
        (\<exists>r. parseCSVRecord line = Inr r
           \<and> market r = strip_edge_quotes (parseCSVLine line ! 0)
           \<and> toISO (if parseCSVLine line ! 2 \<noteq> [] then parseCSVLine line ! 2
                     else parseCSVLine line ! 1) = Inr (reportDate r)
           \<and> nonCommLong r = toNumber (Some (parseCSVLine line ! 8))
           \<and> nonCommShort r = toNumber (Some (parseCSVLine line ! 9))))
   \<and> (\<forall>f \<in> set (parseCSVLine line). 34 \<notin> set f \<and> strip_edge_quotes f = f)
   \<and> (34 \<notin> set line \<longrightarrow> parseCSVLine line = map trim (split_unit 44 [] line))
   \<and> (34 \<notin> set f \<longrightarrow> parseCSVLine (34 # f @ 34 # 44 # rest) = trim f # parseCSVLine rest)
   \<and> parseCSVRecord synthetic_line =
        Inr \<lparr>market = js ''E-MINI NASDAQ-100 STOCK INDEX'', reportDate = js ''2025-08-05'',
             nonCommLong = Fin 30000, nonCommShort = Fin 20000\<rparr>
   \<and> map (\<lambda>r. (label r, row_value r, row_prev r))
        (rows (the (cot (build_output w None
          \<lparr>market = js ''E-MINI NASDAQ-100 STOCK INDEX'', reportDate = js ''2025-08-05'',
            nonCommLong = Fin 30000, nonCommShort = Fin 20000\<rparr>)))) =
        [(js ''Non-Comm Net'', Some (Fin 10000), None),
         (js ''Non-Comm Long'', Some (Fin 30000), None),
         (js ''Non-Comm Short'', Some (Fin 20000), None)]"
proof (intro conjI)
  show "parseCSVRecord line = Inl CsvTooShort \<longleftrightarrow> length (parseCSVLine line) < 10"
    using parseCSVRecord_short[of line] parseCSVRecord_long[of line] by (cases "length (parseCSVLine line) < 10") auto
  show "parseCSVRecord line = Inl e \<longrightarrow> e = CsvTooShort"
    using parseCSVRecord_errors by blast
  show "10 \<le> length (parseCSVLine line) \<longrightarrow>
        (\<exists>r. parseCSVRecord line = Inr r
           \<and> market r = strip_edge_quotes (parseCSVLine line ! 0)
           \<and> toISO (if parseCSVLine line ! 2 \<noteq> [] then parseCSVLine line ! 2
                     else parseCSVLine line ! 1) = Inr (reportDate r)
           \<and> nonCommLong r = toNumber (Some (parseCSVLine line ! 8))
           \<and> nonCommShort r = toNumber (Some (parseCSVLine line ! 9)))"
    by (simp add: parseCSVRecord_long toISO_refines)
  show "\<forall>f \<in> set (parseCSVLine line). 34 \<notin> set f \<and> strip_edge_quotes f = f"
    using parseCSVLine_no_quote strip_edge_quotes_id by blast
  show "34 \<notin> set line \<longrightarrow> parseCSVLine line = map trim (split_unit 44 [] line)"
    using parseCSVLine_unquoted by blast
  show "34 \<notin> set f \<longrightarrow> parseCSVLine (34 # f @ 34 # 44 # rest) = trim f # parseCSVLine rest"
    using parseCSVLine_quoted_field by blast
  show "parseCSVRecord synthetic_line =
        Inr \<lparr>market = js ''E-MINI NASDAQ-100 STOCK INDEX'', reportDate = js ''2025-08-05'',
             nonCommLong = Fin 30000, nonCommShort = Fin 20000\<rparr>"
    by (rule synthetic_record)
  show "map (\<lambda>r. (label r, row_value r, row_prev r))
        (rows (the (cot (build_output w None
          \<lparr>market = js ''E-MINI NASDAQ-100 STOCK INDEX'', reportDate = js ''2025-08-05'',
            nonCommLong = Fin 30000, nonCommShort = Fin 20000\<rparr>)))) =
        [(js ''Non-Comm Net'', Some (Fin 10000), None),
         (js ''Non-Comm Long'', Some (Fin 30000), None),
         (js ''Non-Comm Short'', Some (Fin 20000), None)]"
    by (rule synthetic_rows)
qed


text \<open>
  The theorem at the line of the scenario (ten fields), at a line of three fields without
  quotes, and at a quoted field that holds a comma.
\<close>

theorem parseCSVRecord_fields_witness:
  "length (parseCSVLine synthetic_line) = 10
   \<and> (\<exists>r. parseCSVRecord synthetic_line = Inr r
         \<and> market r = js ''E-MINI NASDAQ-100 STOCK INDEX''
         \<and> toISO (js ''2025-08-05'') = Inr (reportDate r)
         \<and> nonCommLong r = toNumber (Some (js ''30000''))
         \<and> nonCommShort r = toNumber (Some (js ''20000'')))
   \<and> parseCSVRecord (js ''a, b ,c'') = Inl CsvTooShort
   \<and> parseCSVLine (js ''a, b ,c'') = map trim (split_unit 44 [] (js ''a, b ,c''))
   \<and> parseCSVLine (34 # js ''x,y'' @ 34 # 44 # js ''z'') = trim (js ''x,y'') # parseCSVLine (js ''z'')"
proof (intro conjI)
  note long = parseCSVRecord_fields [of synthetic_line, THEN conjunct2, THEN conjunct2, THEN conjunct1]
  note short = parseCSVRecord_fields [of "js ''a, b ,c''", THEN conjunct1]
  note plain = parseCSVRecord_fields [of "js ''a, b ,c''", THEN conjunct2, THEN conjunct2,
      THEN conjunct2, THEN conjunct2, THEN conjunct1]
  note quoted = parseCSVRecord_fields [of _ _ "js ''x,y''" "js ''z''", THEN conjunct2, THEN conjunct2,
      THEN conjunct2, THEN conjunct2, THEN conjunct2, THEN conjunct1]
  have q: "strip_edge_quotes (js ''E-MINI NASDAQ-100 STOCK INDEX'') = js ''E-MINI NASDAQ-100 STOCK INDEX''"
    by (rule strip_edge_quotes_id) (simp add: js_def)
  have ne: "js ''2025-08-05'' \<noteq> []" by (simp add: js_def)
  show len: "length (parseCSVLine synthetic_line) = 10" by (simp add: synthetic_cols)
  show "\<exists>r. parseCSVRecord synthetic_line = Inr r
         \<and> market r = js ''E-MINI NASDAQ-100 STOCK INDEX''
         \<and> toISO (js ''2025-08-05'') = Inr (reportDate r)
         \<and> nonCommLong r = toNumber (Some (js ''30000''))
         \<and> nonCommShort r = toNumber (Some (js ''20000''))"
    using long len by (simp add: synthetic_cols q ne)
  show "parseCSVRecord (js ''a, b ,c'') = Inl CsvTooShort"
    using short by (simp add: short_cols)
  have "34 \<notin> set (js ''a, b ,c'')" by (simp add: js_def)
  then show "parseCSVLine (js ''a, b ,c'') = map trim (split_unit 44 [] (js ''a, b ,c''))"
    using plain by blast
  have "34 \<notin> set (js ''x,y'')" by (simp add: js_def)
  then show "parseCSVLine (34 # js ''x,y'' @ 34 # 44 # js ''z'') = trim (js ''x,y'') # parseCSVLine (js ''z'')"
    using quoted by blast
qed

section \<open>Properties of the fixed-width parser\<close>

lemma probe_pairs_None: "probe_pairs ps parts = None \<longleftrightarrow> (\<forall>p \<in> set ps. \<not> pair_positive parts p)"
  by (induction ps parts rule: probe_pairs.induct) (auto simp: pair_positive_def Let_def)

lemma probe_pairs_first:
  assumes "k < length ps" "pair_positive parts (ps ! k)"
    and "\<forall>k' < k. \<not> pair_positive parts (ps ! k')"
  shows "probe_pairs ps parts =
     Some (toNumber (nth_opt parts (fst (ps ! k))), toNumber (nth_opt parts (snd (ps ! k))))"
  using assms
proof (induction ps arbitrary: k)
  case Nil
  then show ?case by simp
next
  case (Cons p ps)
  obtain iL iS where p: "p = (iL, iS)" by (cases p)
  show ?case
  proof (cases k)
    case 0
    with Cons.prems show ?thesis by (simp add: p pair_positive_def Let_def)
  next
    case (Suc j)
    have np: "\<not> pair_positive parts p" using Cons.prems(3) Suc by auto
    have "probe_pairs ps parts =
        Some (toNumber (nth_opt parts (fst (ps ! j))), toNumber (nth_opt parts (snd (ps ! j))))"
    proof (rule Cons.IH)
      show "j < length ps" using Cons.prems(1) Suc by simp
      show "pair_positive parts (ps ! j)" using Cons.prems(2) Suc by simp
      show "\<forall>k'<j. \<not> pair_positive parts (ps ! k')"
        using Cons.prems(3) Suc by (metis Suc_less_eq nth_Cons_Suc)
    qed
    with np show ?thesis by (simp add: p Suc pair_positive_def Let_def)
  qed
qed

lemma probe_pairs_Some:
  assumes "probe_pairs ps parts = Some (a, b)"
  shows "\<exists>k < length ps. pair_positive parts (ps ! k)
           \<and> (\<forall>k' < k. \<not> pair_positive parts (ps ! k'))
           \<and> a = toNumber (nth_opt parts (fst (ps ! k)))
           \<and> b = toNumber (nth_opt parts (snd (ps ! k)))"
proof -
  have "\<exists>p \<in> set ps. pair_positive parts p"
    using assms probe_pairs_None[of ps parts] by auto
  then have ex: "\<exists>k. k < length ps \<and> pair_positive parts (ps ! k)"
    by (metis in_set_conv_nth)
  define k where "k = (LEAST k. k < length ps \<and> pair_positive parts (ps ! k))"
  have k: "k < length ps \<and> pair_positive parts (ps ! k)"
    unfolding k_def using ex by (rule LeastI_ex)
  have least: "\<forall>k' < k. \<not> pair_positive parts (ps ! k')"
  proof (intro allI impI notI)
    fix k' assume "k' < k" "pair_positive parts (ps ! k')"
    then have "k' < length ps \<and> pair_positive parts (ps ! k')" using k by simp
    then have "k \<le> k'" unfolding k_def by (rule Least_le)
    with \<open>k' < k\<close> show False by simp
  qed
  have "probe_pairs ps parts =
     Some (toNumber (nth_opt parts (fst (ps ! k))), toNumber (nth_opt parts (snd (ps ! k))))"
    using k least by (intro probe_pairs_first) simp_all
  with assms k least show ?thesis by auto
qed

lemma toNumber_absent: "length parts \<le> i \<Longrightarrow> toNumber (nth_opt parts i) = Fin 0"
  by (simp add: nth_opt_def toNumber_def)

lemma parseFixedWidth_layout:
  "parseFixedWidth line = Inl UnexpectedLayout \<longleftrightarrow> length (fixed_columns line) < 5"
  by (auto simp: parseFixedWidth_def fixed_columns_def Let_def toISO_refines split: option.splits)

lemma parseFixedWidth_infer:
  assumes "5 \<le> length (fixed_columns line)"
  shows "parseFixedWidth line = Inl CouldNotInferColumns
     \<longleftrightarrow> (\<forall>p \<in> set column_pairs. \<not> pair_positive (fixed_columns line) p)"
  using assms probe_pairs_None[of column_pairs "fixed_columns line"]
  by (auto simp: parseFixedWidth_def fixed_columns_def Let_def toISO_refines split: option.splits)

lemma parseFixedWidth_accept:
  assumes "5 \<le> length (fixed_columns line)"
    and "k < length column_pairs" "pair_positive (fixed_columns line) (column_pairs ! k)"
    and "\<forall>k' < k. \<not> pair_positive (fixed_columns line) (column_pairs ! k')"
  shows "parseFixedWidth line =
     Inr \<lparr>market = fixed_columns line ! 0,
          reportDate = decoded_date (fixed_columns line ! 1),
          nonCommLong = toNumber (nth_opt (fixed_columns line) (fst (column_pairs ! k))),
          nonCommShort = toNumber (nth_opt (fixed_columns line) (snd (column_pairs ! k)))\<rparr>"
  using assms(1) probe_pairs_first[OF assms(2,3,4)]
  by (simp add: parseFixedWidth_def fixed_columns_def Let_def toISO_refines)

lemma parseFixedWidth_Inr:
  assumes "parseFixedWidth line = Inr r"
  shows "5 \<le> length (fixed_columns line)
     \<and> (\<exists>k < length column_pairs. pair_positive (fixed_columns line) (column_pairs ! k)
           \<and> (\<forall>k' < k. \<not> pair_positive (fixed_columns line) (column_pairs ! k'))
           \<and> r = \<lparr>market = fixed_columns line ! 0,
                   reportDate = decoded_date (fixed_columns line ! 1),
                   nonCommLong = toNumber (nth_opt (fixed_columns line) (fst (column_pairs ! k))),
                   nonCommShort = toNumber (nth_opt (fixed_columns line) (snd (column_pairs ! k)))\<rparr>)"
proof -
  have len: "5 \<le> length (fixed_columns line)"
    using assms by (auto simp: parseFixedWidth_def fixed_columns_def Let_def split: if_splits)
  obtain a b where ab: "probe_pairs column_pairs (fixed_columns line) = Some (a, b)"
    using assms len
    by (auto simp: parseFixedWidth_def fixed_columns_def Let_def split: option.splits)
  from probe_pairs_Some[OF ab] obtain k where k: "k < length column_pairs"
      "pair_positive (fixed_columns line) (column_pairs ! k)"
      "\<forall>k' < k. \<not> pair_positive (fixed_columns line) (column_pairs ! k')"
    by blast
  have "parseFixedWidth line = Inr \<lparr>market = fixed_columns line ! 0,
          reportDate = decoded_date (fixed_columns line ! 1),
          nonCommLong = toNumber (nth_opt (fixed_columns line) (fst (column_pairs ! k))),
          nonCommShort = toNumber (nth_opt (fixed_columns line) (snd (column_pairs ! k)))\<rparr>"
    using len k by (rule parseFixedWidth_accept)
  with assms k len show ?thesis by auto
qed

lemma parseFixedWidth_errors:
  "parseFixedWidth line = Inl e \<Longrightarrow> e = UnexpectedLayout \<or> e = CouldNotInferColumns"
  by (auto simp: parseFixedWidth_def Let_def toISO_refines split: if_splits option.splits)

lemma accepted_in_range:
  assumes len: "5 \<le> length parts"
    and k: "k < length column_pairs" "pair_positive parts (column_pairs ! k)"
    and least: "\<forall>k' < k. \<not> pair_positive parts (column_pairs ! k')"
  shows "snd (column_pairs ! k) < length parts"
proof (rule ccontr)
  assume out: "\<not> snd (column_pairs ! k) < length parts"
  have k4: "k < 4" using k(1) by (simp add: column_pairs_def)
  then consider "k = 0" | "k = 1" | "k = 2" | "k = 3" by linarith
  then show False
  proof cases
    case 1 with out len show False by (simp add: column_pairs_def)
  next
    case 2 with out len show False by (simp add: column_pairs_def)
  next
    case 3
    then have "length parts \<le> 5" using out by (simp add: column_pairs_def)
    then have z: "toNumber (nth_opt parts 5) = Fin 0" by (rule toNumber_absent)
    have "\<not> pair_positive parts (column_pairs ! 1)" using least 3 by simp
    then have "\<not> js_gt (toNumber (nth_opt parts 4)) (Fin 0)"
      by (simp add: pair_positive_def column_pairs_def)
    with k(2) 3 z show False by (simp add: pair_positive_def column_pairs_def)
  next
    case 4
    then have "length parts \<le> 6" using out by (simp add: column_pairs_def)
    then have z: "toNumber (nth_opt parts 6) = Fin 0" by (rule toNumber_absent)
    have "\<not> pair_positive parts (column_pairs ! 2)" using least 4 by simp
    then have "\<not> js_gt (toNumber (nth_opt parts 5)) (Fin 0)"
      by (simp add: pair_positive_def column_pairs_def)
    with k(2) 4 z show False by (simp add: pair_positive_def column_pairs_def)
  qed
qed

lemma split_ws2_no_pair: "no_ws_pair p \<Longrightarrow> split_ws2 cur p = [cur @ p]"
  by (induction cur p rule: split_ws2.induct) auto

lemma dropWhile_ws_run:
  "list_all is_ws u \<Longrightarrow> rest = [] \<or> \<not> is_ws (hd rest) \<Longrightarrow> dropWhile is_ws (u @ rest) = rest"
  by (cases rest) (auto simp: list_all_iff dropWhile_append)

lemma split_ws2_separator:
  assumes "no_ws_pair p" "p = [] \<or> \<not> is_ws (last p)"
    and "2 \<le> length sep" "list_all is_ws sep" "rest = [] \<or> \<not> is_ws (hd rest)"
  shows "split_ws2 cur (p @ sep @ rest) = (cur @ p) # split_ws2 [] rest"
  using assms(1,2)
proof (induction p arbitrary: cur)
  case Nil
  obtain c d u where sep: "sep = c # d # u"
    using assms(3) by (cases sep; cases "tl sep") auto
  have ws: "is_ws c" "is_ws d" "list_all is_ws u" using assms(4) by (simp_all add: sep)
  show ?case
    using ws(1,2) by (simp add: sep dropWhile_ws_run[OF ws(3) assms(5)])
next
  case (Cons x p)
  show ?case
  proof (cases p)
    case Nil
    obtain c u where sep: "sep = c # u" using assms(3) by (cases sep) auto
    have nx: "\<not> is_ws x" using Cons.prems(2) Nil by simp
    have "split_ws2 (cur @ [x]) ([] @ sep @ rest) = ((cur @ [x]) @ []) # split_ws2 [] rest"
      by (rule Cons.IH[unfolded Nil]) simp_all
    then show ?thesis using nx by (simp add: Nil sep)
  next
    case (Cons y q)
    have np: "\<not> (is_ws x \<and> is_ws y)" and rest: "no_ws_pair p"
      using Cons.prems(1) by (simp_all add: Cons)
    have lastp: "p = [] \<or> \<not> is_ws (last p)" using Cons.prems(2) by (simp add: Cons)
    have "split_ws2 (cur @ [x]) (p @ sep @ rest) = ((cur @ [x]) @ p) # split_ws2 [] rest"
      using rest lastp by (rule Cons.IH)
    then show ?thesis using np by (simp add: Cons)
  qed
qed

lemma column_text_trim: "column_text p \<Longrightarrow> trim p = p"
  by (simp add: column_text_def trim_id)

lemma join_with_ends:
  assumes "ps \<noteq> []" "list_all column_text ps"
  shows "join_with sep ps \<noteq> [] \<and> hd (join_with sep ps) = hd (hd ps)
     \<and> last (join_with sep ps) = last (last ps)"
  using assms
proof (induction sep ps rule: join_with.induct)
  case (1 sep)
  then show ?case by simp
next
  case (2 sep p)
  then show ?case by (simp add: column_text_def)
next
  case (3 sep p q ps)
  then have "join_with sep (q # ps) \<noteq> []" "last (join_with sep (q # ps)) = last (last (q # ps))"
    by simp_all
  moreover have "p \<noteq> []" using "3.prems" by (simp add: column_text_def)
  ultimately show ?case by simp
qed

lemma split_ws2_join:
  assumes "ps \<noteq> []" "list_all column_text ps" "2 \<le> length sep" "list_all is_ws sep"
  shows "split_ws2 [] (join_with sep ps) = ps"
  using assms
proof (induction sep ps rule: join_with.induct)
  case (1 sep)
  then show ?case by simp
next
  case (2 sep p)
  then show ?case by (simp add: split_ws2_no_pair column_text_def)
next
  case (3 sep p q ps)
  have p: "no_ws_pair p" "p = [] \<or> \<not> is_ws (last p)"
    using "3.prems" by (simp_all add: column_text_def)
  have e: "join_with sep (q # ps) \<noteq> []" "hd (join_with sep (q # ps)) = hd q"
    using join_with_ends[of "q # ps" sep] "3.prems" by simp_all
  have "\<not> is_ws (hd q)" using "3.prems" by (simp add: column_text_def)
  then have r: "join_with sep (q # ps) = [] \<or> \<not> is_ws (hd (join_with sep (q # ps)))"
    using e by simp
  have "split_ws2 [] (p @ sep @ join_with sep (q # ps)) = ([] @ p) # split_ws2 [] (join_with sep (q # ps))"
    using p "3.prems"(3,4) r by (rule split_ws2_separator)
  moreover have "split_ws2 [] (join_with sep (q # ps)) = q # ps"
    using "3.prems" by (intro "3.IH") simp_all
  ultimately show ?case by simp
qed

lemma trim_surrounded:
  assumes "s \<noteq> []" "\<not> is_ws (hd s)" "\<not> is_ws (last s)" "list_all is_ws u" "list_all is_ws v"
  shows "trim (u @ s @ v) = s"
proof -
  have 1: "dropWhile is_ws (u @ s @ v) = s @ v"
    using assms(1,2,4) by (cases s) (auto simp: dropWhile_append list_all_iff)
  have 2: "dropWhile is_ws (rev v @ rev s) = rev s"
    using assms(1,3,5) by (cases s rule: rev_cases) (auto simp: dropWhile_append list_all_iff)
  show ?thesis by (simp add: trim_def 1 2)
qed

lemma fixed_columns_join:
  assumes "ps \<noteq> []" "list_all column_text ps" "2 \<le> length sep" "list_all is_ws sep"
    and "list_all is_ws u" "list_all is_ws v"
  shows "fixed_columns (u @ join_with sep ps @ v) = ps"
proof -
  have e: "join_with sep ps \<noteq> []" "hd (join_with sep ps) = hd (hd ps)"
    "last (join_with sep ps) = last (last ps)"
    using join_with_ends[OF assms(1,2)] by simp_all
  have "column_text (hd ps)" "column_text (last ps)"
    using assms(1,2) by (simp_all add: list_all_iff)
  then have "\<not> is_ws (hd (join_with sep ps))" "\<not> is_ws (last (join_with sep ps))"
    using e by (simp_all add: column_text_def)
  then have "trim (u @ join_with sep ps @ v) = join_with sep ps"
    using e(1) assms(5,6) by (intro trim_surrounded)
  then show ?thesis by (simp add: fixed_columns_def split_ws2_join[OF assms(1-4)])
qed

lemmas fixed_eval =
  fixed_columns_def parseFixedWidth_def column_pairs_def pair_positive_def nth_opt_def

lemma cols_example:
  "fixed_columns (js ''  NASDAQ MINI   250805  0  0   12  7 '') =
     [js ''NASDAQ MINI'', js ''250805'', js ''0'', js ''0'', js ''12'', js ''7'']"
  by (simp add: fixed_columns_def trim_def is_ws_def js_def)

lemma num_examples:
  "toNumber (Some (js ''0'')) = Fin 0" "toNumber (Some (js ''12'')) = Fin 12"
  "toNumber (Some (js ''7'')) = Fin 7" "toNumber (Some (js ''-5'')) = Fin (- 5)"
  "toNumber (Some (js ''10'')) = Fin 10" "toNumber (Some (js ''1'')) = Fin 1"
  "toNumber (Some (js ''100'')) = Fin 100" "toNumber (Some (js ''20'')) = Fin 20"
  by (simp_all add: number_eval)


lemma probe_out_of_range_short:
  assumes "length parts \<le> iS" "js_gt (toNumber (nth_opt parts iL)) (Fin 0)"
  shows "probe_pairs ((iL, iS) # rest) parts = Some (toNumber (nth_opt parts iL), Fin 0)"
  using assms by (simp add: toNumber_absent Let_def)

lemma probe_out_of_range_long:
  assumes "length parts \<le> iL" "js_gt (toNumber (nth_opt parts iS)) (Fin 0)"
  shows "probe_pairs ((iL, iS) # rest) parts = Some (Fin 0, toNumber (nth_opt parts iS))"
  using assms by (simp add: toNumber_absent Let_def)

lemma toNumber_None: "toNumber None = Fin 0"
  by (simp add: toNumber_def)


lemma five_cols:
  "fixed_columns (js ''NASDAQ MINI  250805  0  0  0'') =
     [js ''NASDAQ MINI'', js ''250805'', js ''0'', js ''0'', js ''0'']"
  by (simp add: fixed_columns_def trim_def is_ws_def js_def)


lemma neg_cols:
  "fixed_columns (js ''NASDAQ MINI  250805  -5  10  1'') =
     [js ''NASDAQ MINI'', js ''250805'', js ''-5'', js ''10'', js ''1'']"
  by (simp add: fixed_columns_def trim_def is_ws_def js_def)

lemma neg_csv_cols:
  "parseCSVLine (js ''NASDAQ MINI,250805,2025-08-05,,,,,100,-5,20'') =
     [js ''NASDAQ MINI'', js ''250805'', js ''2025-08-05'', [], [], [], [], js ''100'', js ''-5'', js ''20'']"
  by (simp add: parseCSVLine_def trim_def is_ws_def js_def)

lemma neg_fixed_record:
  "parseFixedWidth (js ''NASDAQ MINI  250805  -5  10  1'') =
     Inr \<lparr>market = js ''NASDAQ MINI'', reportDate = js ''2025-08-05'',
          nonCommLong = Fin (- 5), nonCommShort = Fin 10\<rparr>"
proof -
  have d: "decoded_date (js ''250805'') = js ''2025-08-05''" by (simp add: date_eval)
  show ?thesis
    using parseFixedWidth_accept[of "js ''NASDAQ MINI  250805  -5  10  1''" 0]
    by (simp add: neg_cols column_pairs_def pair_positive_def nth_opt_def num_examples d)
qed

lemma neg_csv_record:
  "parseCSVRecord (js ''NASDAQ MINI,250805,2025-08-05,,,,,100,-5,20'') =
     Inr \<lparr>market = js ''NASDAQ MINI'', reportDate = js ''2025-08-05'',
          nonCommLong = Fin (- 5), nonCommShort = Fin 20\<rparr>"
proof -
  have d: "decoded_date (js ''2025-08-05'') = js ''2025-08-05''" by (simp add: date_eval)
  have q: "strip_edge_quotes (js ''NASDAQ MINI'') = js ''NASDAQ MINI''"
    by (rule strip_edge_quotes_id) (simp add: js_def)
  have ne: "js ''2025-08-05'' \<noteq> []" by (simp add: js_def)
  show ?thesis
    by (simp add: parseCSVRecord_long neg_csv_cols num_examples d q ne)
qed


text \<open>
  Claim C3. The fixed-width parser trims the line and splits it at every run of two or more
  white-space characters (the class \<open>\s\<close>): columns that hold no such run, written with a
  separator of two or more white-space characters between them and any white space around,
  come back as they are. It throws the layout error exactly when fewer than five columns
  result. Otherwise it probes the index pairs (2,3), (3,4), (4,5), (5,6) in this order: it
  throws the second structural error exactly when no pair has a strictly positive decoded
  value in either position, and it returns the decoded values of the first pair that has one
  as (nonCommLong, nonCommShort), with column 0 as the market and the decoded column 1 as the
  report date.
\<close>

theorem parseFixedWidth_probes:
  "(parseFixedWidth line = Inl UnexpectedLayout \<longleftrightarrow> length (fixed_columns line) < 5)
   \<and> column_pairs = [(2, 3), (3, 4), (4, 5), (5, 6)]
   \<and> (5 \<le> length (fixed_columns line) \<longrightarrow>
        (parseFixedWidth line = Inl CouldNotInferColumns
           \<longleftrightarrow> (\<forall>p \<in> set column_pairs. \<not> pair_positive (fixed_columns line) p))
        \<and> (k < length column_pairs \<and> pair_positive (fixed_columns line) (column_pairs ! k)
            \<and> (\<forall>k' < k. \<not> pair_positive (fixed_columns line) (column_pairs ! k'))
           \<longrightarrow> (\<exists>r. parseFixedWidth line = Inr r
                  \<and> nonCommLong r = toNumber (nth_opt (fixed_columns line) (fst (column_pairs ! k)))
                  \<and> nonCommShort r = toNumber (nth_opt (fixed_columns line) (snd (column_pairs ! k)))
                  \<and> market r = fixed_columns line ! 0
                  \<and> toISO (fixed_columns line ! 1) = Inr (reportDate r))))
   \<and> (ps \<noteq> [] \<and> list_all column_text ps \<and> 2 \<le> length sep \<and> list_all is_ws sep
        \<and> list_all is_ws u \<and> list_all is_ws v
       \<longrightarrow> fixed_columns (u @ join_with sep ps @ v) = ps)"
proof (intro conjI impI)
  show "parseFixedWidth line = Inl UnexpectedLayout \<longleftrightarrow> length (fixed_columns line) < 5"
    by (rule parseFixedWidth_layout)
  show "column_pairs = [(2, 3), (3, 4), (4, 5), (5, 6)]" by (simp add: column_pairs_def)
  show "parseFixedWidth line = Inl CouldNotInferColumns
           \<longleftrightarrow> (\<forall>p \<in> set column_pairs. \<not> pair_positive (fixed_columns line) p)"
    if "5 \<le> length (fixed_columns line)"
    using that by (rule parseFixedWidth_infer)
  show "\<exists>r. parseFixedWidth line = Inr r
                  \<and> nonCommLong r = toNumber (nth_opt (fixed_columns line) (fst (column_pairs ! k)))
                  \<and> nonCommShort r = toNumber (nth_opt (fixed_columns line) (snd (column_pairs ! k)))
                  \<and> market r = fixed_columns line ! 0
                  \<and> toISO (fixed_columns line ! 1) = Inr (reportDate r)"
    if "5 \<le> length (fixed_columns line)"
      and "k < length column_pairs \<and> pair_positive (fixed_columns line) (column_pairs ! k)
            \<and> (\<forall>k' < k. \<not> pair_positive (fixed_columns line) (column_pairs ! k'))"
    using parseFixedWidth_accept[of line k] that by (simp add: toISO_refines)
  show "fixed_columns (u @ join_with sep ps @ v) = ps"
    if "ps \<noteq> [] \<and> list_all column_text ps \<and> 2 \<le> length sep \<and> list_all is_ws sep
        \<and> list_all is_ws u \<and> list_all is_ws v"
    using that by (intro fixed_columns_join) simp_all
qed


text \<open>
  The theorem at a line of six columns whose first pair is (0, 0) and whose second pair is
  (0, 12), at a line of four columns, and at three columns joined by three spaces.
\<close>

theorem parseFixedWidth_probes_witness:
  "length (fixed_columns (js ''  NASDAQ MINI   250805  0  0   12  7 '')) = 6
   \<and> (\<exists>r. parseFixedWidth (js ''  NASDAQ MINI   250805  0  0   12  7 '') = Inr r
         \<and> nonCommLong r = Fin 0 \<and> nonCommShort r = Fin 12
         \<and> market r = js ''NASDAQ MINI'' \<and> toISO (js ''250805'') = Inr (reportDate r))
   \<and> parseFixedWidth (js ''NASDAQ MINI  250805  0  0'') = Inl UnexpectedLayout
   \<and> fixed_columns (js '' '' @ join_with (js ''   '') [js ''NASDAQ MINI'', js ''250805'', js ''7''] @ [])
       = [js ''NASDAQ MINI'', js ''250805'', js ''7'']"
proof (intro conjI)
  let ?line = "js ''  NASDAQ MINI   250805  0  0   12  7 ''"
  note layout = parseFixedWidth_probes [of "js ''NASDAQ MINI  250805  0  0''", THEN conjunct1]
  note accept = parseFixedWidth_probes [of ?line 1, THEN conjunct2, THEN conjunct2, THEN conjunct1,
      rule_format, THEN conjunct2, rule_format]
  note joined = parseFixedWidth_probes [of _ _ "[js ''NASDAQ MINI'', js ''250805'', js ''7'']"
      "js ''   ''" "js '' ''" "[]", THEN conjunct2, THEN conjunct2, THEN conjunct2, rule_format]
  show len: "length (fixed_columns ?line) = 6" by (simp add: cols_example)
  have "\<exists>r. parseFixedWidth ?line = Inr r
      \<and> nonCommLong r = toNumber (nth_opt (fixed_columns ?line) (fst (column_pairs ! 1)))
      \<and> nonCommShort r = toNumber (nth_opt (fixed_columns ?line) (snd (column_pairs ! 1)))
      \<and> market r = fixed_columns ?line ! 0
      \<and> toISO (fixed_columns ?line ! 1) = Inr (reportDate r)"
  proof (rule accept)
    show "5 \<le> length (fixed_columns ?line)" using len by simp
    show "1 < length column_pairs \<and> pair_positive (fixed_columns ?line) (column_pairs ! 1)
        \<and> (\<forall>k' < 1. \<not> pair_positive (fixed_columns ?line) (column_pairs ! k'))"
      by (simp add: cols_example column_pairs_def pair_positive_def nth_opt_def num_examples)
  qed
  then show "\<exists>r. parseFixedWidth ?line = Inr r
         \<and> nonCommLong r = Fin 0 \<and> nonCommShort r = Fin 12
         \<and> market r = js ''NASDAQ MINI'' \<and> toISO (js ''250805'') = Inr (reportDate r)"
    by (simp add: cols_example column_pairs_def nth_opt_def num_examples)
  have "length (fixed_columns (js ''NASDAQ MINI  250805  0  0'')) < 5"
    by (simp add: fixed_columns_def trim_def is_ws_def js_def)
  then show "parseFixedWidth (js ''NASDAQ MINI  250805  0  0'') = Inl UnexpectedLayout"
    using layout by simp
  show "fixed_columns (js '' '' @ join_with (js ''   '') [js ''NASDAQ MINI'', js ''250805'', js ''7''] @ [])
       = [js ''NASDAQ MINI'', js ''250805'', js ''7'']"
    by (rule joined) (simp add: column_text_def is_ws_def js_def)
qed

text \<open>
  Claim C10. On every line the fixed-width parser either returns a record or throws one of
  its two structural errors, never anything else; with five or more columns only the second
  error is left. A column index at or beyond the number of columns reads \<open>undefined\<close>,
  which decodes to 0; so a step of the probe whose one index is out of range and whose other
  position is positive takes the pair with 0 for the missing field. With the four pairs of
  the script and at least five columns, both indices of the pair that is taken always lie
  within the columns.
\<close>

theorem parseFixedWidth_total:
  "(parseFixedWidth line = Inl e \<longrightarrow> e = UnexpectedLayout \<or> e = CouldNotInferColumns)
   \<and> (5 \<le> length (fixed_columns line) \<longrightarrow>
        (\<exists>r. parseFixedWidth line = Inr r) \<or> parseFixedWidth line = Inl CouldNotInferColumns)
   \<and> (length parts \<le> i \<longrightarrow> nth_opt parts i = None \<and> toNumber (nth_opt parts i) = Fin 0)
   \<and> (length parts \<le> iS \<and> js_gt (toNumber (nth_opt parts iL)) (Fin 0)
       \<longrightarrow> probe_pairs ((iL, iS) # rest) parts = Some (toNumber (nth_opt parts iL), Fin 0))
   \<and> (length parts \<le> iL \<and> js_gt (toNumber (nth_opt parts iS)) (Fin 0)
       \<longrightarrow> probe_pairs ((iL, iS) # rest) parts = Some (Fin 0, toNumber (nth_opt parts iS)))
   \<and> (parseFixedWidth line = Inr r \<longrightarrow>
        (\<exists>k < length column_pairs.
            nonCommLong r = toNumber (nth_opt (fixed_columns line) (fst (column_pairs ! k)))
          \<and> nonCommShort r = toNumber (nth_opt (fixed_columns line) (snd (column_pairs ! k)))
          \<and> fst (column_pairs ! k) < length (fixed_columns line)
          \<and> snd (column_pairs ! k) < length (fixed_columns line)))"
proof (intro conjI impI)
  show "e = UnexpectedLayout \<or> e = CouldNotInferColumns" if "parseFixedWidth line = Inl e"
    using that by (rule parseFixedWidth_errors)
  show "(\<exists>r. parseFixedWidth line = Inr r) \<or> parseFixedWidth line = Inl CouldNotInferColumns"
    if "5 \<le> length (fixed_columns line)"
  proof (cases "parseFixedWidth line")
    case (Inl e)
    then have "e \<noteq> UnexpectedLayout" using that parseFixedWidth_layout[of line] by auto
    with Inl parseFixedWidth_errors[OF Inl] show ?thesis by simp
  next
    case (Inr r)
    then show ?thesis by simp
  qed
  show "nth_opt parts i = None" if "length parts \<le> i" using that by (simp add: nth_opt_def)
  show "toNumber (nth_opt parts i) = Fin 0" if "length parts \<le> i" using that by (rule toNumber_absent)
  show "probe_pairs ((iL, iS) # rest) parts = Some (toNumber (nth_opt parts iL), Fin 0)"
    if "length parts \<le> iS \<and> js_gt (toNumber (nth_opt parts iL)) (Fin 0)"
    using that probe_out_of_range_short by blast
  show "probe_pairs ((iL, iS) # rest) parts = Some (Fin 0, toNumber (nth_opt parts iS))"
    if "length parts \<le> iL \<and> js_gt (toNumber (nth_opt parts iS)) (Fin 0)"
    using that probe_out_of_range_long by blast
  show "\<exists>k < length column_pairs.
            nonCommLong r = toNumber (nth_opt (fixed_columns line) (fst (column_pairs ! k)))
          \<and> nonCommShort r = toNumber (nth_opt (fixed_columns line) (snd (column_pairs ! k)))
          \<and> fst (column_pairs ! k) < length (fixed_columns line)
          \<and> snd (column_pairs ! k) < length (fixed_columns line)"
    if "parseFixedWidth line = Inr r"
  proof -
    from parseFixedWidth_Inr[OF that] obtain k where
      len: "5 \<le> length (fixed_columns line)" and k: "k < length column_pairs"
      and pos: "pair_positive (fixed_columns line) (column_pairs ! k)"
      and least: "\<forall>k' < k. \<not> pair_positive (fixed_columns line) (column_pairs ! k')"
      and r: "r = \<lparr>market = fixed_columns line ! 0,
                   reportDate = decoded_date (fixed_columns line ! 1),
                   nonCommLong = toNumber (nth_opt (fixed_columns line) (fst (column_pairs ! k))),
                   nonCommShort = toNumber (nth_opt (fixed_columns line) (snd (column_pairs ! k)))\<rparr>"
      by blast
    have s: "snd (column_pairs ! k) < length (fixed_columns line)"
      using len k pos least by (rule accepted_in_range)
    have "k < 4" using k by (simp add: column_pairs_def)
    then have "fst (column_pairs ! k) < snd (column_pairs ! k)"
      by (auto simp: column_pairs_def less_Suc_eq numeral_eq_Suc)
    with s have f: "fst (column_pairs ! k) < length (fixed_columns line)" by simp
    show ?thesis using k r s f by auto
  qed
qed


text \<open>
  The theorem at a line of exactly five columns, all counts 0 (the pairs (4,5) and (5,6)
  read past the end, and the result is the structural error), at the probe of the pair (2,3)
  on three columns, and at a line whose second pair is taken.
\<close>

theorem parseFixedWidth_total_witness:
  "length (fixed_columns (js ''NASDAQ MINI  250805  0  0  0'')) = 5
   \<and> parseFixedWidth (js ''NASDAQ MINI  250805  0  0  0'') = Inl CouldNotInferColumns
   \<and> toNumber (nth_opt (fixed_columns (js ''NASDAQ MINI  250805  0  0  0'')) 6) = Fin 0
   \<and> probe_pairs [(2, 3)] [js ''NASDAQ MINI'', js ''250805'', js ''7''] = Some (Fin 7, Fin 0)
   \<and> (\<exists>k < length column_pairs.
        snd (column_pairs ! k) < length (fixed_columns (js ''  NASDAQ MINI   250805  0  0   12  7 '')))"
proof (intro conjI)
  let ?line = "js ''NASDAQ MINI  250805  0  0  0''"
  let ?ok = "js ''  NASDAQ MINI   250805  0  0   12  7 ''"
  note total = parseFixedWidth_total [of ?line, THEN conjunct2, THEN conjunct1, rule_format]
  note absent = parseFixedWidth_total [of _ _ "fixed_columns ?line" 6, THEN conjunct2, THEN conjunct2,
      THEN conjunct1, rule_format, THEN conjunct2]
  note loop = parseFixedWidth_total [of _ _ "[js ''NASDAQ MINI'', js ''250805'', js ''7'']" _ 3 2 "[]",
      THEN conjunct2, THEN conjunct2, THEN conjunct2, THEN conjunct1, rule_format]
  show len: "length (fixed_columns ?line) = 5" by (simp add: five_cols)
  have "\<not> (\<exists>r. parseFixedWidth ?line = Inr r)"
    using parseFixedWidth_infer[of ?line] len
    by (simp add: five_cols column_pairs_def pair_positive_def nth_opt_def num_examples toNumber_None)
  then show "parseFixedWidth ?line = Inl CouldNotInferColumns"
    using total len by simp
  show "toNumber (nth_opt (fixed_columns ?line) 6) = Fin 0"
    by (rule absent) (simp add: len)
  have "probe_pairs [(2, 3)] [js ''NASDAQ MINI'', js ''250805'', js ''7'']
      = Some (toNumber (nth_opt [js ''NASDAQ MINI'', js ''250805'', js ''7''] 2), Fin 0)"
    by (rule loop) (simp add: nth_opt_def num_examples)
  then show "probe_pairs [(2, 3)] [js ''NASDAQ MINI'', js ''250805'', js ''7''] = Some (Fin 7, Fin 0)"
    by (simp add: nth_opt_def num_examples)
  obtain r where r: "parseFixedWidth ?ok = Inr r"
    using parseFixedWidth_accept[of ?ok 1]
    by (simp add: cols_example column_pairs_def pair_positive_def nth_opt_def num_examples)
  from parseFixedWidth_total [of ?ok _ _ _ _ _ _ r, THEN conjunct2, THEN conjunct2, THEN conjunct2,
      THEN conjunct2, THEN conjunct2, rule_format, OF r]
  show "\<exists>k < length column_pairs. snd (column_pairs ! k) < length (fixed_columns ?ok)"
    by blast
qed


lemma isFinite_gt: "js_gt a (Fin 0) \<Longrightarrow> isFinite a \<Longrightarrow> \<exists>q. a = Fin q \<and> 0 < q"
  by (cases a) auto


text \<open>
  Claim C8, as the script has it. Both counts of a record that either parser returns are
  finite numbers (never \<open>NaN\<close> or an infinity), and at least one count of a record of the
  fixed-width parser is strictly positive. Neither parser checks the sign of a count.
\<close>

theorem parsed_counts_finite:
  "(parseCSVRecord line = Inr r \<longrightarrow> isFinite (nonCommLong r) \<and> isFinite (nonCommShort r))
   \<and> (parseFixedWidth line = Inr r \<longrightarrow>
        isFinite (nonCommLong r) \<and> isFinite (nonCommShort r)
        \<and> (js_gt (nonCommLong r) (Fin 0) \<or> js_gt (nonCommShort r) (Fin 0)))"
proof (intro conjI impI)
  assume "parseCSVRecord line = Inr r"
  then have "nonCommLong r = toNumber (nth_opt (parseCSVLine line) CSV_IDX_NONCOMM_LONG)
      \<and> nonCommShort r = toNumber (nth_opt (parseCSVLine line) CSV_IDX_NONCOMM_SHORT)"
    by (auto simp: parseCSVRecord_def Let_def toISO_refines split: if_splits)
  then show "isFinite (nonCommLong r)" "isFinite (nonCommShort r)"
    by (simp_all add: isFinite_toNumber)
next
  assume "parseFixedWidth line = Inr r"
  from parseFixedWidth_Inr[OF this] obtain k where
    pos: "pair_positive (fixed_columns line) (column_pairs ! k)"
    and r: "r = \<lparr>market = fixed_columns line ! 0,
                 reportDate = decoded_date (fixed_columns line ! 1),
                 nonCommLong = toNumber (nth_opt (fixed_columns line) (fst (column_pairs ! k))),
                 nonCommShort = toNumber (nth_opt (fixed_columns line) (snd (column_pairs ! k)))\<rparr>"
    by blast
  show "isFinite (nonCommLong r)" "isFinite (nonCommShort r)"
    by (simp_all add: r isFinite_toNumber)
  show "js_gt (nonCommLong r) (Fin 0) \<or> js_gt (nonCommShort r) (Fin 0)"
    using pos by (simp add: r pair_positive_def)
qed


text \<open>The theorem at a fixed-width line with a negative count and at the scenario's CSV line.\<close>

theorem parsed_counts_finite_witness:
  "(\<exists>r. parseFixedWidth (js ''NASDAQ MINI  250805  -5  10  1'') = Inr r
        \<and> isFinite (nonCommLong r) \<and> isFinite (nonCommShort r)
        \<and> (js_gt (nonCommLong r) (Fin 0) \<or> js_gt (nonCommShort r) (Fin 0)))
   \<and> (\<exists>r. parseCSVRecord synthetic_line = Inr r
        \<and> isFinite (nonCommLong r) \<and> isFinite (nonCommShort r))"
  using parsed_counts_finite [of "js ''NASDAQ MINI  250805  -5  10  1''",
      THEN conjunct2, rule_format, OF neg_fixed_record]
    parsed_counts_finite [of synthetic_line, THEN conjunct1, rule_format, OF synthetic_record]
    neg_fixed_record synthetic_record
  by blast


text \<open>
  Claim C8 as it is written fails on a count with a minus sign: both parsers return the
  record with \<open>nonCommLong = -5\<close>.
\<close>

theorem parsed_counts_negative_counterexample:
  "parseCSVRecord (js ''NASDAQ MINI,250805,2025-08-05,,,,,100,-5,20'') =
     Inr \<lparr>market = js ''NASDAQ MINI'', reportDate = js ''2025-08-05'',
          nonCommLong = Fin (- 5), nonCommShort = Fin 20\<rparr>
   \<and> parseFixedWidth (js ''NASDAQ MINI  250805  -5  10  1'') =
     Inr \<lparr>market = js ''NASDAQ MINI'', reportDate = js ''2025-08-05'',
          nonCommLong = Fin (- 5), nonCommShort = Fin 10\<rparr>
   \<and> js_gt (Fin 0) (Fin (- 5))"
  by (simp add: neg_csv_record neg_fixed_record)

section \<open>Properties of the Row Locator\<close>



lemma findIndex_map: "findIndex P (map f xs) = findIndex (P \<circ> f) xs"
  by (induction xs) auto




















section \<open>Properties of the Text Normalizer\<close>

lemma is_ws_upper [simp]: "is_ws (upper_unit c) = is_ws c"
  by (auto simp: is_ws_def upper_unit_def)

lemma is_dash_variant_upper [simp]: "is_dash_variant (upper_unit c) = is_dash_variant c"
  by (auto simp: is_dash_variant_def upper_unit_def)

lemma upper_unit_idem [simp]: "upper_unit (upper_unit c) = upper_unit c"
  by (auto simp: upper_unit_def)

lemma upper_unit_fixed [simp]: "upper_unit 45 = 45" "upper_unit 32 = 32"
  by (simp_all add: upper_unit_def)


lemma upper_unit_dash: "is_dash_variant c \<Longrightarrow> upper_unit c = c"
  by (auto simp: is_dash_variant_def upper_unit_def)










































section \<open>Properties of the Snapshot Reconciler\<close>







section \<open>Properties of the run\<close>












end
